theory Spec2Isabelle
  imports Main "HOL-Library.AList" "HOL-Library.Char_ord" "HOL-Library.List_Lexorder"
    "HOL-Library.Multiset"
begin

section \<open>Python values, errors and the store\<close>

text \<open>
  The result document of \<^verbatim>\<open>capa/render/__init__.py\<close> is a Python-native structure
  (dicts, lists, sets, strings, integers, booleans). It is modelled by one datatype of
  Python values. A dict is an association list in insertion order; a set is the list of
  its elements in the order in which Python iterates it (the source never sorts a set
  before iterating it, so the order is part of the input); \<open>PObj\<close> is any other object.
  Dict keys and set elements are integers (addresses) or strings. Floats are left out.
\<close>

datatype key = KInt int | KStr string

datatype error = KeyError key | TypeError | AttributeError | RuntimeError string

datatype 'o pv =
    PNone
  | PBool bool
  | PInt int
  | PStr string
  | PList "'o pv list"
  | PDict "(key \<times> 'o pv) list"
  | PSet "key list"
  | PObj 'o

text \<open>
  Rule metadata (\<open>rule.meta\<close>) is a mutable dict shared by reference: the converter
  rewrites it in place and stores the very same dict in the document. The store maps a
  reference to the dict it holds. Values inside a stored dict hold no reference
  themselves (their objects are named by a class name only); a value of the document is
  either a foreign object or a reference to a stored meta dict.
\<close>

datatype obj = MetaRef nat | Foreign string

type_synonym heap = "nat \<Rightarrow> (key \<times> string pv) list"

text \<open>Computations: \<open>Inl\<close> is a raised exception; \<open>None\<close> is a recursion that does not return.\<close>

definition ebind :: "error + 'a \<Rightarrow> ('a \<Rightarrow> error + 'b) \<Rightarrow> error + 'b" where
  "ebind m f = (case m of Inl e \<Rightarrow> Inl e | Inr x \<Rightarrow> f x)"

definition cbind :: "(error + 'a) option \<Rightarrow> ('a \<Rightarrow> (error + 'b) option) \<Rightarrow> (error + 'b) option" where
  "cbind m f = (case m of None \<Rightarrow> None | Some (Inl e) \<Rightarrow> Some (Inl e) | Some (Inr x) \<Rightarrow> f x)"

fun emap :: "('a \<Rightarrow> error + 'b) \<Rightarrow> 'a list \<Rightarrow> error + 'b list" where
  "emap f [] = Inr []"
| "emap f (x # xs) = ebind (f x) (\<lambda>y. ebind (emap f xs) (\<lambda>ys. Inr (y # ys)))"

fun cmap :: "('a \<Rightarrow> (error + 'b) option) \<Rightarrow> 'a list \<Rightarrow> (error + 'b list) option" where
  "cmap f [] = Some (Inr [])"
| "cmap f (x # xs) = cbind (f x) (\<lambda>y. cbind (cmap f xs) (\<lambda>ys. Some (Inr (y # ys))))"

fun py_truthy :: "'o pv \<Rightarrow> bool" where
  "py_truthy PNone = False"
| "py_truthy (PBool b) = b"
| "py_truthy (PInt i) = (i \<noteq> 0)"
| "py_truthy (PStr s) = (s \<noteq> [])"
| "py_truthy (PList xs) = (xs \<noteq> [])"
| "py_truthy (PDict kvs) = (kvs \<noteq> [])"
| "py_truthy (PSet ks) = (ks \<noteq> [])"
| "py_truthy (PObj x) = True"

text \<open>\<open>d[k]\<close>: a missing key raises KeyError; a value that is no dict raises TypeError.\<close>

fun py_getitem :: "'o pv \<Rightarrow> key \<Rightarrow> error + 'o pv" where
  "py_getitem (PDict kvs) k = (case map_of kvs k of None \<Rightarrow> Inl (KeyError k) | Some v \<Rightarrow> Inr v)"
| "py_getitem v k = Inl TypeError"

text \<open>\<open>d[k1][k2]...\<close>, left to right.\<close>

fun py_path :: "'o pv \<Rightarrow> key list \<Rightarrow> error + 'o pv" where
  "py_path v [] = Inr v"
| "py_path v (k # ks) = ebind (py_getitem v k) (\<lambda>w. py_path w ks)"

text \<open>\<open>d.get(k)\<close> and \<open>d.get(k, default)\<close> on a dict.\<close>

definition py_get :: "(key \<times> 'o pv) list \<Rightarrow> key \<Rightarrow> 'o pv \<Rightarrow> 'o pv" where
  "py_get kvs k dflt = (case map_of kvs k of None \<Rightarrow> dflt | Some v \<Rightarrow> v)"

text \<open>
  \<open>d[k] = v\<close> on a dict is \<open>AList.update k v\<close>: an existing key keeps its place, a new key
  goes last.
\<close>

fun py_str :: "'o pv \<Rightarrow> error + string" where
  "py_str (PStr s) = Inr s"
| "py_str v = Inl TypeError"

text \<open>Iterating the set held at a key of the document (the addresses of a node).\<close>

fun py_iter_keys :: "'o pv \<Rightarrow> error + key list" where
  "py_iter_keys (PSet ks) = Inr ks"
| "py_iter_keys (PDict kvs) = Inr (map fst kvs)"
| "py_iter_keys v = Inl TypeError"

section \<open>The inputs: statements, features, match results, rules\<close>

record feature =
  feature_name :: string
  get_value_str :: string
  feature_description :: "string option"
  feature_matches :: "obj pv"

text \<open>
  \<open>capa.engine.Statement\<close> and its subclasses; \<open>statement.name\<close> is the class name.
\<close>

datatype statement =
    And_stmt (stmt_description: "string option")
  | Or_stmt (stmt_description: "string option")
  | Not_stmt (stmt_description: "string option")
  | Some_stmt (stmt_description: "string option") (stmt_count: int)
  | Range_stmt (stmt_description: "string option") (stmt_child: feature) (stmt_min: int) (stmt_max: int)
  | Subscope_stmt (stmt_description: "string option") (stmt_scope: string)

fun statement_name :: "statement \<Rightarrow> string" where
  "statement_name (And_stmt d) = ''And''"
| "statement_name (Or_stmt d) = ''Or''"
| "statement_name (Not_stmt d) = ''Not''"
| "statement_name (Some_stmt d c) = ''Some''"
| "statement_name (Range_stmt d ch lo hi) = ''Range''"
| "statement_name (Subscope_stmt d sc) = ''Subscope''"

definition lower_char :: "char \<Rightarrow> char" where
  "lower_char c =
     (case map_of (zip ''ABCDEFGHIJKLMNOPQRSTUVWXYZ'' ''abcdefghijklmnopqrstuvwxyz'') c of
        None \<Rightarrow> c | Some d \<Rightarrow> d)"

definition lower :: "string \<Rightarrow> string" where
  "lower s = map lower_char s"

text \<open>The node of a match result: a Statement, a Feature, or an object of another class.\<close>

datatype node = Statement statement | Feature feature | Other

text \<open>
  \<open>capa.engine.Result\<close>. \<open>locations\<close> is the node's address set, as the list in which
  Python iterates it.
\<close>

datatype result =
  Result (success: bool) (statement: node) (children: "result list") (locations: "int list")

record rule =
  rule_name :: string
  rule_meta :: nat
  rule_definition :: string

text \<open>
  \<open>RuleSet\<close>: \<open>name in rules\<close> and \<open>rules[name]\<close> read the name index;
  \<open>rules.rules_by_namespace[ns]\<close> is a subscript on the namespace index, a mapping from a
  namespace to its rules (a missing key raises KeyError).
\<close>

record ruleset =
  rules :: "string \<rightharpoonup> rule"
  rules_by_namespace :: "string \<rightharpoonup> rule list"

text \<open>\<open>capabilities\<close>: a dict from a rule name to its list of (address, Result) pairs.\<close>

type_synonym capabilities = "(string \<times> (int \<times> result) list) list"

section \<open>The node converter\<close>

definition convert_feature_to_result_document :: "feature \<Rightarrow> obj pv" where
  "convert_feature_to_result_document f =
     (let result = AList.update (KStr (feature_name f)) (PStr (get_value_str f))
                     [(KStr ''type'', PStr (feature_name f))];
          result = (case feature_description f of
                      None \<Rightarrow> result
                    | Some d \<Rightarrow> if d \<noteq> [] then AList.update (KStr ''description'') (PStr d) result
                               else result);
          result = (if feature_name f = ''regex''
                    then AList.update (KStr ''matches'') (feature_matches f) result
                    else result)
      in PDict result)"

definition convert_statement_to_result_document :: "statement \<Rightarrow> obj pv" where
  "convert_statement_to_result_document st =
     (let statement_type = lower (statement_name st);
          result = [(KStr ''type'', PStr statement_type)];
          result = (case stmt_description st of
                      None \<Rightarrow> result
                    | Some d \<Rightarrow> if d \<noteq> [] then AList.update (KStr ''description'') (PStr d) result
                               else result)
      in PDict
        (case st of
           Some_stmt d c \<Rightarrow>
             if c = 0 then AList.update (KStr ''type'') (PStr ''optional'') result
             else AList.update (KStr ''count'') (PInt c) result
         | Range_stmt d ch lo hi \<Rightarrow>
             AList.update (KStr ''child'') (convert_feature_to_result_document ch)
               (AList.update (KStr ''max'') (PInt hi)
                 (AList.update (KStr ''min'') (PInt lo) result))
         | Subscope_stmt d sc \<Rightarrow> AList.update (KStr ''subscope'') (PStr sc) result
         | _ \<Rightarrow> result))"

fun convert_node_to_result_document :: "node \<Rightarrow> error + obj pv" where
  "convert_node_to_result_document (Statement st) =
     Inr (PDict [(KStr ''type'', PStr ''statement''),
                 (KStr ''statement'', convert_statement_to_result_document st)])"
| "convert_node_to_result_document (Feature f) =
     Inr (PDict [(KStr ''type'', PStr ''feature''),
                 (KStr ''feature'', convert_feature_to_result_document f)])"
| "convert_node_to_result_document Other = Inl (RuntimeError ''unexpected match node type'')"

section \<open>The match-tree splicer\<close>

text \<open>
  \<open>{address: result for (address, result) in pairs}\<close>: a later pair with the same
  address replaces an earlier one.
\<close>

definition rule_matches_of :: "(int \<times> result) list \<Rightarrow> int \<rightharpoonup> result" where
  "rule_matches_of pairs = foldl (\<lambda>m (a, r). m(a \<mapsto> r)) Map.empty pairs"

text \<open>
  The loop \<open>for location in doc["locations"]: doc["children"].append(convert(...,
  rule_matches[location]))\<close>: the converted trees in the order of the iteration;
  \<open>rule_matches[location]\<close> raises KeyError on an address with no entry, which ends the
  loop and the conversion. \<open>conv\<close> is the recursive call.
\<close>

definition splice_locations ::
  "(result \<Rightarrow> (error + obj pv) option) \<Rightarrow> (int \<rightharpoonup> result) \<Rightarrow> key list
     \<Rightarrow> (error + obj pv list) option" where
  "splice_locations conv rule_matches locs =
     cmap (\<lambda>location.
        case location of
          KInt a \<Rightarrow> (case rule_matches a of
                      None \<Rightarrow> Some (Inl (KeyError location))
                    | Some r \<Rightarrow> conv r)
        | KStr s \<Rightarrow> Some (Inl (KeyError location))) locs"

text \<open>\<open>doc["children"].append(x)\<close> for each \<open>x\<close> of \<open>spliced\<close>, in order.\<close>

definition append_children :: "(key \<times> obj pv) list \<Rightarrow> obj pv list \<Rightarrow> error + obj pv" where
  "append_children doc spliced =
     (if spliced = [] then Inr (PDict doc)
      else ebind (py_getitem (PDict doc) (KStr ''children''))
        (\<lambda>c. case c of
               PList xs \<Rightarrow> Inr (PDict (AList.update (KStr ''children'') (PList (xs @ spliced)) doc))
             | _ \<Rightarrow> Inl AttributeError))"

text \<open>
  The condition of the splice (source lines 135 to 141), with Python's short-circuit
  \<open>and\<close>: \<open>doc["node"]["type"] == "feature" and doc["node"]["feature"]["type"] == "match"
  and doc["success"]\<close>.
\<close>

definition is_successful_match :: "(key \<times> obj pv) list \<Rightarrow> error + bool" where
  "is_successful_match doc =
     ebind (py_path (PDict doc) [KStr ''node'', KStr ''type''])
       (\<lambda>t. if t \<noteq> PStr ''feature'' then Inr False
            else ebind (py_path (PDict doc) [KStr ''node'', KStr ''feature'', KStr ''type''])
              (\<lambda>ft. if ft \<noteq> PStr ''match'' then Inr False
                    else ebind (py_getitem (PDict doc) (KStr ''success''))
                      (\<lambda>s. Inr (py_truthy s))))"

text \<open>The branch \<open>if name in rules\<close> (source lines 145 to 167).\<close>

definition splice_rule ::
  "(result \<Rightarrow> (error + obj pv) option) \<Rightarrow> heap \<Rightarrow> capabilities \<Rightarrow> string \<Rightarrow> rule
     \<Rightarrow> (key \<times> obj pv) list \<Rightarrow> (error + obj pv) option" where
  "splice_rule conv h caps rname r doc =
     (case map_of caps rname of
        None \<Rightarrow> Some (Inl (KeyError (KStr rname)))
      | Some pairs \<Rightarrow>
          cbind (Some
            (if py_truthy (py_get (h (rule_meta r)) (KStr ''capa/subscope-rule'') PNone)
             then ebind (py_getitem (PDict (h (rule_meta r))) (KStr ''scope''))
               (\<lambda>scope. Inr (AList.update (KStr ''node'')
                   (PDict [(KStr ''type'', PStr ''statement''),
                           (KStr ''statement'',
                              PDict [(KStr ''type'', PStr ''subscope''),
                                     (KStr ''subscope'', map_pv Foreign scope)])]) doc))
             else Inr doc))
          (\<lambda>doc. cbind (Some (ebind (py_getitem (PDict doc) (KStr ''locations'')) py_iter_keys))
          (\<lambda>locs. cbind (splice_locations conv (rule_matches_of pairs) locs)
          (\<lambda>spliced. Some (append_children doc spliced)))))"

text \<open>The branch \<open>else\<close>: the name is taken for a namespace (source lines 168 to 201).\<close>

definition splice_namespace ::
  "(result \<Rightarrow> (error + obj pv) option) \<Rightarrow> ruleset \<Rightarrow> capabilities \<Rightarrow> string
     \<Rightarrow> (key \<times> obj pv) list \<Rightarrow> (error + obj pv) option" where
  "splice_namespace conv rs caps ns_name doc =
     (case rules_by_namespace rs ns_name of
        None \<Rightarrow> Some (Inl (KeyError (KStr ns_name)))
      | Some ns_rules \<Rightarrow>
          cbind (cmap (\<lambda>r.
              case map_of caps (rule_name r) of
                None \<Rightarrow> Some (Inr [])
              | Some pairs \<Rightarrow>
                  cbind (Some (ebind (py_getitem (PDict doc) (KStr ''locations'')) py_iter_keys))
                    (\<lambda>locs. splice_locations conv (rule_matches_of pairs) locs)) ns_rules)
          (\<lambda>splicedss. Some (append_children doc (concat splicedss))))"

definition splice_match ::
  "(result \<Rightarrow> (error + obj pv) option) \<Rightarrow> ruleset \<Rightarrow> heap \<Rightarrow> capabilities
     \<Rightarrow> (key \<times> obj pv) list \<Rightarrow> (error + obj pv) option" where
  "splice_match conv rs h caps doc =
     cbind (Some (is_successful_match doc))
       (\<lambda>b. if \<not> b then Some (Inr (PDict doc))
            else cbind (Some (ebind (py_path (PDict doc)
                         [KStr ''node'', KStr ''feature'', KStr ''match'']) py_str))
              (\<lambda>name. case rules rs name of
                         Some r \<Rightarrow> splice_rule conv h caps name r doc
                       | None \<Rightarrow> splice_namespace conv rs caps name doc))"

text \<open>
  \<open>isinstance(result.statement, capa.features.Feature)\<close> and
  \<open>isinstance(result.statement, capa.rules.Range)\<close>.
\<close>

fun is_Feature :: "node \<Rightarrow> bool" where
  "is_Feature (Feature f) = True"
| "is_Feature nd = False"

fun is_Range :: "node \<Rightarrow> bool" where
  "is_Range (Statement (Range_stmt d ch lo hi)) = True"
| "is_Range nd = False"

text \<open>
  \<open>convert_match_to_result_document\<close>. The recursion follows the children of the tree and
  then the trees of other rules, so nothing bounds it in the source: the first argument
  is the depth of recursion allowed, and \<open>None\<close> is a recursion deeper than that.
\<close>

fun convert_match_to_result_document ::
  "nat \<Rightarrow> ruleset \<Rightarrow> heap \<Rightarrow> capabilities \<Rightarrow> result \<Rightarrow> (error + obj pv) option" where
  "convert_match_to_result_document 0 rs h caps res = None"
| "convert_match_to_result_document (Suc n) rs h caps res =
     cbind (Some (convert_node_to_result_document (statement res)))
       (\<lambda>nd. cbind (cmap (convert_match_to_result_document n rs h caps) (children res))
       (\<lambda>kids.
          let doc = [(KStr ''success'', PBool (success res)),
                     (KStr ''node'', nd),
                     (KStr ''children'', PList kids)];
              doc = (if is_Feature (statement res)
                     then (if success res
                           then AList.update (KStr ''locations'') (PSet (map KInt (locations res))) doc
                           else doc)
                     else if is_Range (statement res)
                     then (if success res
                           then AList.update (KStr ''locations'') (PSet (map KInt (locations res))) doc
                           else doc)
                     else doc)
          in splice_match (convert_match_to_result_document n rs h caps) rs h caps doc))"


text \<open>\<open>k in d\<close> on a dict.\<close>

fun py_contains :: "'o pv \<Rightarrow> key \<Rightarrow> bool" where
  "py_contains (PDict kvs) k = (map_of kvs k \<noteq> None)"
| "py_contains v k = False"

text \<open>
  For stating the claims: \<open>ds\<close> are, address by address in the order of \<open>addrs\<close>, the
  documents that \<open>conv\<close> returns for the match trees which the (address, Result) pairs of a
  rule hold at these addresses.
\<close>

definition spliced_at ::
  "(result \<Rightarrow> (error + obj pv) option) \<Rightarrow> (int \<times> result) list \<Rightarrow> int list \<Rightarrow> obj pv list
     \<Rightarrow> bool" where
  "spliced_at conv pairs addrs ds =
     list_all2 (\<lambda>a d. \<exists>t. rule_matches_of pairs a = Some t \<and> conv t = Some (Inr d)) addrs ds"

section \<open>The taxonomy parser and the metadata\<close>

text \<open>
  \<open>capa.render.utils.parse_parts_id\<close> is not among the sources: it is a parameter
  \<open>parse_parts_id\<close> of the parsers, a function from the string to the pair of the parts
  and the identifier.
\<close>

definition parse_canonical_attack :: "(string \<Rightarrow> string list \<times> string) \<Rightarrow> string \<Rightarrow> 'o pv" where
  "parse_canonical_attack parse_parts_id attack =
     (let (parts, ident) = parse_parts_id attack;
          tactic = (if length parts > 0 then parts ! 0 else '''');
          technique = (if length parts > 1 then parts ! 1 else '''');
          subtechnique = (if length parts > 2 then parts ! 2 else '''')
      in PDict [(KStr ''parts'', PList (map PStr parts)),
                (KStr ''id'', PStr ident),
                (KStr ''tactic'', PStr tactic),
                (KStr ''technique'', PStr technique),
                (KStr ''subtechnique'', PStr subtechnique)])"

definition parse_canonical_mbc :: "(string \<Rightarrow> string list \<times> string) \<Rightarrow> string \<Rightarrow> 'o pv" where
  "parse_canonical_mbc parse_parts_id mbc =
     (let (parts, ident) = parse_parts_id mbc;
          objective = (if length parts > 0 then parts ! 0 else '''');
          behavior = (if length parts > 1 then parts ! 1 else '''');
          method = (if length parts > 2 then parts ! 2 else '''')
      in PDict [(KStr ''parts'', PList (map PStr parts)),
                (KStr ''id'', PStr ident),
                (KStr ''objective'', PStr objective),
                (KStr ''behavior'', PStr behavior),
                (KStr ''method'', PStr method)])"

text \<open>\<open>for x in v\<close>: the elements of a list, the characters of a string, the keys of a dict.\<close>

fun key_value :: "key \<Rightarrow> 'o pv" where
  "key_value (KInt i) = PInt i"
| "key_value (KStr s) = PStr s"

fun py_iter :: "'o pv \<Rightarrow> error + 'o pv list" where
  "py_iter (PList xs) = Inr xs"
| "py_iter (PStr s) = Inr (map (\<lambda>c. PStr [c]) s)"
| "py_iter (PDict kvs) = Inr (map (\<lambda>kv. key_value (fst kv)) kvs)"
| "py_iter (PSet ks) = Inr (map key_value ks)"
| "py_iter v = Inl TypeError"

text \<open>
  \<open>[parse(x) for x in xs]\<close> for one of the two parsers. The parsers hand their argument to
  \<open>parse_parts_id\<close>, which works on a string: an element that is no string (a record
  parsed before, say) raises AttributeError.
\<close>

definition parse_each :: "(string \<Rightarrow> 'o pv) \<Rightarrow> 'o pv \<Rightarrow> error + 'o pv" where
  "parse_each parse xs =
     ebind (py_iter xs)
       (\<lambda>elems. ebind (emap (\<lambda>x. case x of PStr s \<Rightarrow> Inr (parse s) | _ \<Rightarrow> Inl AttributeError) elems)
       (\<lambda>parsed. Inr (PList parsed)))"

text \<open>
  \<open>convert_meta_to_result_document(meta)\<close>: \<open>meta\<close> is a reference into the store; the
  dict it refers to is rewritten in place, and the reference is returned.
\<close>

definition convert_meta_to_result_document ::
  "(string \<Rightarrow> string list \<times> string) \<Rightarrow> heap \<Rightarrow> nat \<Rightarrow> error + (nat \<times> heap)" where
  "convert_meta_to_result_document parse_parts_id h meta =
     (let attacks = py_get (h meta) (KStr ''att&ck'') (PList [])
      in ebind (parse_each (parse_canonical_attack parse_parts_id) attacks)
        (\<lambda>parsed.
           let h = h(meta := AList.update (KStr ''att&ck'') parsed (h meta));
               mbcs = py_get (h meta) (KStr ''mbc'') (PList [])
           in ebind (parse_each (parse_canonical_mbc parse_parts_id) mbcs)
             (\<lambda>parsed.
                let h = h(meta := AList.update (KStr ''mbc'') parsed (h meta))
                in Inr (meta, h))))"

section \<open>The document assembler\<close>

text \<open>\<open>{k: v for (k, v) in entries}\<close>.\<close>

definition dict_of :: "(key \<times> 'o pv) list \<Rightarrow> (key \<times> 'o pv) list" where
  "dict_of entries = foldl (\<lambda>d (k, v). AList.update k v d) [] entries"

text \<open>
  The loop \<open>for rule_name, matches in capabilities.items()\<close> of
  \<open>convert_capabilities_to_result_document\<close>, over the items still to visit, with
  \<open>doc["rules"]\<close> and the store as they stand.
\<close>

fun convert_rules ::
  "nat \<Rightarrow> (string \<Rightarrow> string list \<times> string) \<Rightarrow> ruleset \<Rightarrow> capabilities
     \<Rightarrow> (string \<times> (int \<times> result) list) list \<Rightarrow> (key \<times> obj pv) list \<Rightarrow> heap
     \<Rightarrow> (error + ((key \<times> obj pv) list \<times> heap)) option" where
  "convert_rules n parse_parts_id rs caps [] doc_rules h = Some (Inr (doc_rules, h))"
| "convert_rules n parse_parts_id rs caps ((rname, matches) # items) doc_rules h =
     (case rules rs rname of
        None \<Rightarrow> Some (Inl (KeyError (KStr rname)))
      | Some r \<Rightarrow>
          if py_truthy (py_get (h (rule_meta r)) (KStr ''capa/subscope-rule'') PNone)
          then convert_rules n parse_parts_id rs caps items doc_rules h
          else cbind (Some (convert_meta_to_result_document parse_parts_id h (rule_meta r)))
            (\<lambda>(rmeta, h').
               cbind (cmap (\<lambda>(addr, m).
                        cbind (convert_match_to_result_document n rs h' caps m)
                          (\<lambda>d. Some (Inr (KInt addr, d)))) matches)
                 (\<lambda>entries.
                    convert_rules n parse_parts_id rs caps items
                      (AList.update (KStr rname)
                         (PDict [(KStr ''meta'', PObj (MetaRef rmeta)),
                                 (KStr ''source'', PStr (rule_definition r)),
                                 (KStr ''matches'', PDict (dict_of entries))])
                         doc_rules)
                      h')))"

text \<open>
  \<open>convert_capabilities_to_result_document(meta, rules, capabilities)\<close>: the document and
  the store it leaves. The first argument bounds the recursion of each conversion of a
  match tree.
\<close>

definition convert_capabilities_to_result_document ::
  "nat \<Rightarrow> (string \<Rightarrow> string list \<times> string) \<Rightarrow> obj pv \<Rightarrow> ruleset \<Rightarrow> heap \<Rightarrow> capabilities
     \<Rightarrow> (error + (obj pv \<times> heap)) option" where
  "convert_capabilities_to_result_document n parse_parts_id meta rs h caps =
     cbind (convert_rules n parse_parts_id rs caps caps [] h)
       (\<lambda>(doc_rules, h').
          Some (Inr (PDict [(KStr ''meta'', meta), (KStr ''rules'', PDict doc_rules)], h')))"

section \<open>The JSON encoder\<close>

text \<open>
  \<open>sorted(...)\<close> on the elements of a set and on the items of a dict (\<open>sort_keys=True\<close>):
  integers among themselves and strings among themselves are ordered; comparing an
  integer with a string raises TypeError.
\<close>

fun is_KInt :: "key \<Rightarrow> bool" where
  "is_KInt (KInt i) = True"
| "is_KInt (KStr s) = False"

fun key_int :: "key \<Rightarrow> int" where
  "key_int (KInt i) = i"
| "key_int (KStr s) = 0"

fun key_str :: "key \<Rightarrow> string" where
  "key_str (KStr s) = s"
| "key_str (KInt i) = []"

definition py_sorted :: "key list \<Rightarrow> error + key list" where
  "py_sorted ks =
     (if list_all is_KInt ks then Inr (sort_key key_int ks)
      else if list_all (\<lambda>k. \<not> is_KInt k) ks then Inr (sort_key key_str ks)
      else Inl TypeError)"

definition sorted_items :: "(key \<times> 'v) list \<Rightarrow> error + (key \<times> 'v) list" where
  "sorted_items kvs =
     (if list_all (\<lambda>kv. is_KInt (fst kv)) kvs then Inr (sort_key (\<lambda>kv. key_int (fst kv)) kvs)
      else if list_all (\<lambda>kv. \<not> is_KInt (fst kv)) kvs then Inr (sort_key (\<lambda>kv. key_str (fst kv)) kvs)
      else Inl TypeError)"

text \<open>
  \<open>json.JSONEncoder.default\<close> raises TypeError. \<open>CapaJsonObjectEncoder.default\<close> is called
  for a value that the encoder does not emit by itself, a set or another object.
\<close>

definition JSONEncoder_default :: "'o pv \<Rightarrow> error + 'o pv" where
  "JSONEncoder_default obj = Inl TypeError"

fun is_native :: "'o pv \<Rightarrow> bool" where
  "is_native (PSet ks) = False"
| "is_native (PObj x) = False"
| "is_native v = True"

definition CapaJsonObjectEncoder_default :: "'o pv \<Rightarrow> error + 'o pv" where
  "CapaJsonObjectEncoder_default obj =
     (if is_native obj then JSONEncoder_default obj
      else (case obj of
              PSet ks \<Rightarrow> ebind (py_sorted ks) (\<lambda>sorted_ks. Inr (PList (map key_value sorted_ks)))
            | _ \<Rightarrow> JSONEncoder_default obj))"

text \<open>The decimal text of an integer; the list joined by a separator; the text of a dict key.\<close>

fun show_nat :: "nat \<Rightarrow> string" where
  "show_nat n = (if n < 10 then [''0123456789'' ! n] else show_nat (n div 10) @ [''0123456789'' ! (n mod 10)])"

definition show_int :: "int \<Rightarrow> string" where
  "show_int i = (if i < 0 then CHR ''-'' # show_nat (nat (- i)) else show_nat (nat i))"

declare show_nat.simps [simp del]

fun join :: "string \<Rightarrow> string list \<Rightarrow> string" where
  "join sep [] = []"
| "join sep [x] = x"
| "join sep (x # y # ys) = x @ sep @ join sep (y # ys)"

fun key_text :: "key \<Rightarrow> string" where
  "key_text (KStr s) = s"
| "key_text (KInt i) = show_int i"

text \<open>
  \<open>json.dumps(v, cls=CapaJsonObjectEncoder, sort_keys=True)\<close>, to the text it returns.
  \<open>esc\<close> is the text of a string (the standard library's quoting and escaping), a
  parameter. \<open>dr\<close> tells how an object is emitted when it is one of the shared dicts; for
  any other object, and for a set, the encoder calls \<open>default\<close> and encodes what it
  returns. The measure \<open>rank\<close> is for the termination of this last step.
\<close>

primrec rank :: "'o pv \<Rightarrow> nat" where
  "rank PNone = 0"
| "rank (PBool b) = 0"
| "rank (PInt i) = 0"
| "rank (PStr s) = 0"
| "rank (PList xs) = Suc (sum_list (map rank xs))"
| "rank (PDict kvs) = Suc (sum_list (map snd (map (map_prod id rank) kvs)))"
| "rank (PSet ks) = 2"
| "rank (PObj x) = 0"

lemma ebind_cong [fundef_cong]:
  assumes "m = m'" and "\<And>x. m' = Inr x \<Longrightarrow> f x = g x"
  shows "ebind m f = ebind m' g"
  using assms by (cases m') (auto simp: ebind_def)

lemma emap_cong [fundef_cong]:
  assumes "xs = ys" and "\<And>x. x \<in> set ys \<Longrightarrow> f x = g x"
  shows "emap f xs = emap g ys"
  unfolding assms(1) using assms(2) by (induction ys) (auto intro: ebind_cong)

function json_encode ::
  "(string \<Rightarrow> string) \<Rightarrow> ('o \<Rightarrow> (error + string) option) \<Rightarrow> 'o pv \<Rightarrow> error + string" where
  "json_encode esc dr PNone = Inr ''null''"
| "json_encode esc dr (PBool b) = Inr (if b then ''true'' else ''false'')"
| "json_encode esc dr (PInt i) = Inr (show_int i)"
| "json_encode esc dr (PStr s) = Inr (esc s)"
| "json_encode esc dr (PList xs) =
     ebind (emap (json_encode esc dr) xs) (\<lambda>parts. Inr (''['' @ join '', '' parts @ '']''))"
| "json_encode esc dr (PDict kvs) =
     ebind (sorted_items kvs)
       (\<lambda>items. ebind (emap (\<lambda>kv. ebind (json_encode esc dr (snd kv))
                                   (\<lambda>s. Inr (esc (key_text (fst kv)) @ '': '' @ s))) items)
       (\<lambda>parts. Inr (''{'' @ join '', '' parts @ ''}'')))"
| "json_encode esc dr (PSet ks) =
     ebind (CapaJsonObjectEncoder_default (PSet ks)) (json_encode esc dr)"
| "json_encode esc dr (PObj x) =
     (case dr x of
        Some out \<Rightarrow> out
      | None \<Rightarrow> ebind (CapaJsonObjectEncoder_default (PObj x)) (json_encode esc dr))"
  by pat_completeness auto

lemma sorted_items_set:
  assumes "sorted_items kvs = Inr items"
  shows "set items = set kvs"
  using assms by (auto simp: sorted_items_def split: if_splits)

lemma rank_member: "x \<in> set xs \<Longrightarrow> rank x \<le> sum_list (map rank xs)"
  by (induction xs) auto

lemma rank_value: "kv \<in> set kvs \<Longrightarrow> rank (snd kv) \<le> sum_list (map snd (map (map_prod id rank) kvs))"
  by (induction kvs) auto

lemma rank_key_value [simp]: "rank (key_value k) = 0"
  by (cases k) simp_all

lemma rank_default:
  assumes "CapaJsonObjectEncoder_default v = Inr w"
  shows "rank w < rank v"
  using assms
  by (cases v) (auto simp: CapaJsonObjectEncoder_default_def JSONEncoder_default_def o_def
      ebind_def split: sum.splits)

termination json_encode
proof (relation "measure (\<lambda>(esc, dr, v). rank v)", goal_cases)
  case 1
  show ?case by simp
next
  case (2 esc dr xs x)
  then show ?case using rank_member [of x xs] by simp
next
  case (3 esc dr kvs items kv)
  then have "kv \<in> set kvs" by (simp add: sorted_items_set)
  then show ?case using rank_value [of kv kvs] by simp
next
  case (4 esc dr ks w)
  then show ?case using rank_default [of "PSet ks" w] by simp
next
  case (5 esc dr x w)
  then show ?case using rank_default [of "PObj x" w] by simp
qed

text \<open>
  The encoder on a document: a reference is emitted as the dict that the store holds for
  it, whose values hold no reference; a foreign object goes to \<open>default\<close>.
\<close>

fun deref :: "(string \<Rightarrow> string) \<Rightarrow> heap \<Rightarrow> obj \<Rightarrow> (error + string) option" where
  "deref esc h (MetaRef r) = Some (json_encode esc (\<lambda>c. None) (PDict (h r)))"
| "deref esc h (Foreign c) = None"

definition json_dumps :: "(string \<Rightarrow> string) \<Rightarrow> heap \<Rightarrow> obj pv \<Rightarrow> error + string" where
  "json_dumps esc h v = json_encode esc (deref esc h) v"

definition render_json ::
  "nat \<Rightarrow> (string \<Rightarrow> string list \<times> string) \<Rightarrow> (string \<Rightarrow> string) \<Rightarrow> obj pv \<Rightarrow> ruleset \<Rightarrow> heap
     \<Rightarrow> capabilities \<Rightarrow> (error + string) option" where
  "render_json n parse_parts_id esc meta rs h caps =
     cbind (convert_capabilities_to_result_document n parse_parts_id meta rs h caps)
       (\<lambda>(doc, h'). Some (json_dumps esc h' doc))"

section \<open>Notions for stating the claims about metadata and assembly\<close>

text \<open>The part at a position of the parts list, the empty string when there is none.\<close>

definition part_at :: "string list \<Rightarrow> nat \<Rightarrow> string" where
  "part_at parts i = (case drop i parts of [] \<Rightarrow> '''' | p # ps \<Rightarrow> p)"

text \<open>\<open>rule.meta.get("capa/subscope-rule")\<close> is true: the rule is a subscope rule.\<close>

definition is_subscope_rule :: "heap \<Rightarrow> rule \<Rightarrow> bool" where
  "is_subscope_rule h r = py_truthy (py_get (h (rule_meta r)) (KStr ''capa/subscope-rule'') PNone)"

text \<open>
  \<open>recs\<close> are the records parsed from the taxonomy strings that the value \<open>original\<close>
  lists, in order.
\<close>

definition parsed_records :: "(string \<Rightarrow> string pv) \<Rightarrow> string pv \<Rightarrow> string pv list \<Rightarrow> bool" where
  "parsed_records parse original recs =
     (\<exists>strs. py_iter original = Inr (map PStr strs) \<and> recs = map parse strs)"

text \<open>What \<open>convert_meta_to_result_document\<close> makes of the dict at its reference.\<close>

definition normalize_meta ::
  "(string \<Rightarrow> string list \<times> string) \<Rightarrow> (key \<times> string pv) list \<Rightarrow> error + (key \<times> string pv) list" where
  "normalize_meta parse_parts_id d =
     ebind (parse_each (parse_canonical_attack parse_parts_id) (py_get d (KStr ''att&ck'') (PList [])))
       (\<lambda>atts. ebind (parse_each (parse_canonical_mbc parse_parts_id)
                   (py_get (AList.update (KStr ''att&ck'') atts d) (KStr ''mbc'') (PList [])))
         (\<lambda>mbcs. Inr (AList.update (KStr ''mbc'') mbcs (AList.update (KStr ''att&ck'') atts d))))"

text \<open>
  The loop of the assembler converts the rule \<open>r\<close> under the name \<open>rname\<close>: the name has
  an item among \<open>items\<close>, the rule index holds \<open>r\<close> for it, and \<open>r\<close> is no subscope rule.
\<close>

definition converts ::
  "ruleset \<Rightarrow> heap \<Rightarrow> (string \<times> (int \<times> result) list) list \<Rightarrow> string \<Rightarrow> rule \<Rightarrow> bool" where
  "converts rs h items rname r =
     (rname \<in> fst ` set items \<and> rules rs rname = Some r \<and> \<not> is_subscope_rule h r)"

text \<open>
  The value at the key \<open>k\<close> of a meta dict, the empty list when the dict has no such key,
  iterates over strings: what the parsers of \<open>convert_meta_to_result_document\<close> need.
\<close>

definition taxonomy_strings :: "(key \<times> string pv) list \<Rightarrow> key \<Rightarrow> bool" where
  "taxonomy_strings d k = (\<exists>strs. py_iter (py_get d k (PList [])) = Inr (map PStr strs))"

text \<open>Each rule that the loop converts has a meta dict of its own.\<close>

definition own_meta :: "ruleset \<Rightarrow> heap \<Rightarrow> (string \<times> (int \<times> result) list) list \<Rightarrow> bool" where
  "own_meta rs h items =
     (\<forall>rname r rname' r'. converts rs h items rname r \<and> converts rs h items rname' r'
          \<and> rule_meta r = rule_meta r' \<longrightarrow> rname = rname')"

text \<open>
  For stating the claim about the encoder: two values that differ only in the order in
  which their sets enumerate their elements and their dicts (with distinct keys) their
  items.
\<close>

inductive reordered :: "'o pv \<Rightarrow> 'o pv \<Rightarrow> bool" where
  same: "reordered v v"
| in_list: "list_all2 reordered xs ys \<Longrightarrow> reordered (PList xs) (PList ys)"
| in_set: "mset ks = mset ks' \<Longrightarrow> reordered (PSet ks) (PSet ks')"
| in_dict: "distinct (map fst kvs) \<Longrightarrow>
            list_all2 (\<lambda>kv kv'. fst kv = fst kv' \<and> reordered (snd kv) (snd kv')) kvs mid \<Longrightarrow>
            mset mid = mset kvs' \<Longrightarrow> reordered (PDict kvs) (PDict kvs')"

text \<open>
  Keys that are all integers or all strings; and keys in ascending order, which are all
  integers or all strings as well. The text of an element of a set.
\<close>

definition homogeneous :: "key list \<Rightarrow> bool" where
  "homogeneous ks = (list_all is_KInt ks \<or> list_all (\<lambda>k. \<not> is_KInt k) ks)"

definition ascending :: "key list \<Rightarrow> bool" where
  "ascending ks = ((list_all is_KInt ks \<and> sorted (map key_int ks))
                 \<or> (list_all (\<lambda>k. \<not> is_KInt k) ks \<and> sorted (map key_str ks)))"

fun atom_text :: "(string \<Rightarrow> string) \<Rightarrow> key \<Rightarrow> string" where
  "atom_text esc (KInt i) = show_int i"
| "atom_text esc (KStr s) = esc s"

text \<open>
  The values of the supported kinds: \<open>None\<close>, booleans, integers, strings, lists and dicts
  of supported values, sets, and the objects that \<open>ok\<close> admits; the keys of a dict, and
  the elements of a set, can be sorted. In a document, the objects admitted are the
  references to the meta dicts of the store whose values are supported and hold no object.
\<close>

function supported :: "('o \<Rightarrow> bool) \<Rightarrow> 'o pv \<Rightarrow> bool" where
  "supported ok PNone = True"
| "supported ok (PBool b) = True"
| "supported ok (PInt i) = True"
| "supported ok (PStr s) = True"
| "supported ok (PList xs) = list_all (supported ok) xs"
| "supported ok (PDict kvs) = (homogeneous (map fst kvs) \<and> list_all (\<lambda>kv. supported ok (snd kv)) kvs)"
| "supported ok (PSet ks) = homogeneous ks"
| "supported ok (PObj x) = ok x"
  by pat_completeness auto

termination supported
proof (relation "measure (\<lambda>(ok, v). rank v)", goal_cases)
  case 1
  show ?case by simp
next
  case (2 ok xs x)
  then show ?case using rank_member [of x xs] by simp
next
  case (3 ok kvs kv)
  then show ?case using rank_value [of kv kvs] by simp
qed

definition supported_doc :: "heap \<Rightarrow> obj pv \<Rightarrow> bool" where
  "supported_doc h v =
     supported (\<lambda>x. case x of MetaRef r \<Rightarrow> supported (\<lambda>c. False) (PDict (h r)) | Foreign c \<Rightarrow> False) v"


section \<open>A rule set to run the converter on\<close>

text \<open>
  Rule \<open>A\<close> references the subscope rule \<open>B\<close> (scope "basic block"), which matched at
  address 0x401000; the namespace \<open>net\<close> holds the rules \<open>X\<close> and \<open>Y\<close>.
\<close>

text \<open>
  An instance of the parameter \<open>parse_parts_id\<close> for the examples, after the format
  \<open>Seg1[::Seg2[::Seg3]] [ID]\<close> of the taxonomy strings: the segments between double
  colons, and the bracketed identifier after the last space.
\<close>

fun split_double_colon :: "string \<Rightarrow> string \<Rightarrow> string list" where
  "split_double_colon acc [] = [rev acc]"
| "split_double_colon acc [c] = [rev (c # acc)]"
| "split_double_colon acc (c # d # cs) =
     (if c = CHR '':'' \<and> d = CHR '':'' then rev acc # split_double_colon [] cs
      else split_double_colon (c # acc) (d # cs))"

definition split_identifier :: "string \<Rightarrow> string \<times> string" where
  "split_identifier s =
     (let tl_rev = takeWhile (\<lambda>c. c \<noteq> CHR '' '') (rev s);
          word = rev tl_rev
      in if length tl_rev < length s \<and> word \<noteq> [] \<and> hd word = CHR ''['' \<and> last word = CHR '']''
         then (take (length s - length tl_rev - 1) s, butlast (tl word))
         else (s, ''''))"

definition ex_parse_parts_id :: "string \<Rightarrow> string list \<times> string" where
  "ex_parse_parts_id s =
     (let segs = split_double_colon [] s;
          (lst, ident) = split_identifier (last segs)
      in (butlast segs @ [lst], ident))"

text \<open>An instance of the parameter \<open>esc\<close> for the examples: the string in double quotes.\<close>

definition ex_esc :: "string \<Rightarrow> string" where
  "ex_esc s = CHR 0x22 # s @ [CHR 0x22]"

definition ex_api :: feature where
  "ex_api = \<lparr>feature_name = ''api'', get_value_str = ''CreateFile'',
             feature_description = None, feature_matches = PNone\<rparr>"

definition ex_match :: "string \<Rightarrow> feature" where
  "ex_match nm = \<lparr>feature_name = ''match'', get_value_str = nm,
             feature_description = None, feature_matches = PNone\<rparr>"

definition ex_leaf :: "int \<Rightarrow> result" where
  "ex_leaf a = Result True (Feature ex_api) [] [a]"

definition ex_tree_B :: result where
  "ex_tree_B = Result True (Statement (And_stmt None)) [ex_leaf 4198400] []"

definition ex_tree_A :: result where
  "ex_tree_A = Result True (Feature (ex_match ''B'')) [] [4198400]"

definition ex_rule :: "string \<Rightarrow> nat \<Rightarrow> rule" where
  "ex_rule nm m = \<lparr>rule_name = nm, rule_meta = m, rule_definition = ''rule:''\<rparr>"

definition ex_rules :: ruleset where
  "ex_rules = \<lparr>rules = [''A'' \<mapsto> ex_rule ''A'' 0, ''B'' \<mapsto> ex_rule ''B'' 1,
                          ''X'' \<mapsto> ex_rule ''X'' 2, ''Y'' \<mapsto> ex_rule ''Y'' 3],
               rules_by_namespace = [''net'' \<mapsto> [ex_rule ''X'' 2, ex_rule ''Y'' 3]]\<rparr>"

definition ex_heap :: heap where
  "ex_heap = (\<lambda>r. [])
     (0 := [(KStr ''scope'', PStr ''function''),
            (KStr ''att&ck'', PList [PStr ''Discovery::File and Directory Discovery [T1083]''])],
      1 := [(KStr ''capa/subscope-rule'', PBool True), (KStr ''scope'', PStr ''basic block'')])"

definition ex_caps :: capabilities where
  "ex_caps = [(''A'', [(4198400, ex_tree_A)]), (''B'', [(4198400, ex_tree_B)]),
              (''Y'', [(20480, ex_leaf 20480)])]"

text \<open>The documents of the example trees, and the document and the store of the whole run.\<close>

definition ex_doc_leaf :: "int \<Rightarrow> obj pv" where
  "ex_doc_leaf a =
     PDict [(KStr ''success'', PBool True),
            (KStr ''node'', PDict [(KStr ''type'', PStr ''feature''),
               (KStr ''feature'', PDict [(KStr ''type'', PStr ''api''),
                                        (KStr ''api'', PStr ''CreateFile'')])]),
            (KStr ''children'', PList []),
            (KStr ''locations'', PSet [KInt a])]"

definition ex_doc_B :: "obj pv" where
  "ex_doc_B =
     PDict [(KStr ''success'', PBool True),
            (KStr ''node'', PDict [(KStr ''type'', PStr ''statement''),
               (KStr ''statement'', PDict [(KStr ''type'', PStr ''and'')])]),
            (KStr ''children'', PList [ex_doc_leaf 4198400])]"

definition ex_doc_A :: "obj pv" where
  "ex_doc_A =
     PDict [(KStr ''success'', PBool True),
            (KStr ''node'', PDict [(KStr ''type'', PStr ''statement''),
               (KStr ''statement'', PDict [(KStr ''type'', PStr ''subscope''),
                                          (KStr ''subscope'', PStr ''basic block'')])]),
            (KStr ''children'', PList [ex_doc_B]),
            (KStr ''locations'', PSet [KInt 4198400])]"

definition ex_document :: "obj pv" where
  "ex_document =
     PDict [(KStr ''meta'', PDict []),
            (KStr ''rules'', PDict
               [(KStr ''A'', PDict [(KStr ''meta'', PObj (MetaRef 0)),
                                   (KStr ''source'', PStr ''rule:''),
                                   (KStr ''matches'', PDict [(KInt 4198400, ex_doc_A)])]),
                (KStr ''Y'', PDict [(KStr ''meta'', PObj (MetaRef 3)),
                                   (KStr ''source'', PStr ''rule:''),
                                   (KStr ''matches'', PDict [(KInt 20480, ex_doc_leaf 20480)])])])]"

definition ex_heap_after :: heap where
  "ex_heap_after = ex_heap
     (0 := [(KStr ''scope'', PStr ''function''),
            (KStr ''att&ck'', PList
               [PDict [(KStr ''parts'', PList [PStr ''Discovery'', PStr ''File and Directory Discovery'']),
                       (KStr ''id'', PStr ''T1083''),
                       (KStr ''tactic'', PStr ''Discovery''),
                       (KStr ''technique'', PStr ''File and Directory Discovery''),
                       (KStr ''subtechnique'', PStr '''')]]),
            (KStr ''mbc'', PList [])],
      3 := [(KStr ''att&ck'', PList []), (KStr ''mbc'', PList [])])"

text \<open>The text of the document of the leaf that matched at the address whose text is \<open>a\<close>.\<close>

definition ex_text_leaf :: "string \<Rightarrow> string" where
  "ex_text_leaf a =
     ''{'' @ ex_esc ''children'' @ '': [], '' @ ex_esc ''locations'' @ '': ['' @ a @ ''], ''
       @ ex_esc ''node'' @ '': {'' @ ex_esc ''feature'' @ '': {'' @ ex_esc ''api'' @ '': ''
       @ ex_esc ''CreateFile'' @ '', '' @ ex_esc ''type'' @ '': '' @ ex_esc ''api'' @ ''}, ''
       @ ex_esc ''type'' @ '': '' @ ex_esc ''feature'' @ ''}, '' @ ex_esc ''success'' @ '': true}''"

section \<open>Properties of the computations\<close>

lemma ebind_simps [simp]:
  "ebind (Inl e) f = Inl e" "ebind (Inr x) f = f x"
  by (simp_all add: ebind_def)

lemma cbind_simps [simp]:
  "cbind None g = None" "cbind (Some (Inl e)) g = Some (Inl e)" "cbind (Some (Inr x)) g = g x"
  by (simp_all add: cbind_def)

lemma cbind_returned:
  assumes "cbind m g = Some (Inr y)"
  obtains x where "m = Some (Inr x)" and "g x = Some (Inr y)"
  using assms by (auto simp: cbind_def split: option.splits sum.splits)

lemma ebind_returned:
  assumes "ebind m g = Inr y"
  obtains x where "m = Inr x" and "g x = Inr y"
  using assms by (auto simp: ebind_def split: sum.splits)

lemma cmap_returned:
  assumes "cmap g xs = Some (Inr ys)"
  shows "list_all2 (\<lambda>x y. g x = Some (Inr y)) xs ys"
  using assms
proof (induction xs arbitrary: ys)
  case Nil
  then show ?case by simp
next
  case (Cons x xs)
  from Cons.prems obtain y where y: "g x = Some (Inr y)"
    and rest: "cbind (cmap g xs) (\<lambda>ys. Some (Inr (y # ys))) = Some (Inr ys)"
    by (auto elim: cbind_returned)
  from rest obtain zs where zs: "cmap g xs = Some (Inr zs)" and "ys = y # zs"
    by (auto elim: cbind_returned)
  with y Cons.IH [OF zs] show ?case by simp
qed

section \<open>Properties of the splicer\<close>

lemma feature_type_match:
  assumes "feature_name f = ''match''"
  shows "py_getitem (convert_feature_to_result_document f) (KStr ''type'') = Inr (PStr ''match'')"
  using assms by (simp add: convert_feature_to_result_document_def Let_def split: option.split)

lemma feature_match_name:
  assumes "feature_name f = ''match''"
  shows "py_getitem (convert_feature_to_result_document f) (KStr ''match'')
           = Inr (PStr (get_value_str f))"
  using assms by (simp add: convert_feature_to_result_document_def Let_def split: option.split)

text \<open>
  A successful match feature whose children convert: the document before the splice,
  and the branch taken.
\<close>

lemma convert_match_feature_unfold:
  assumes "statement res = Feature f" "feature_name f = ''match''" "success res"
    and "cmap (convert_match_to_result_document n rs h caps) (children res) = Some (Inr kids)"
  shows "convert_match_to_result_document (Suc n) rs h caps res =
     (case rules rs (get_value_str f) of
        Some r \<Rightarrow>
          splice_rule (convert_match_to_result_document n rs h caps) h caps (get_value_str f) r
            [(KStr ''success'', PBool True),
             (KStr ''node'', PDict [(KStr ''type'', PStr ''feature''),
                                   (KStr ''feature'', convert_feature_to_result_document f)]),
             (KStr ''children'', PList kids),
             (KStr ''locations'', PSet (map KInt (locations res)))]
      | None \<Rightarrow>
          splice_namespace (convert_match_to_result_document n rs h caps) rs caps (get_value_str f)
            [(KStr ''success'', PBool True),
             (KStr ''node'', PDict [(KStr ''type'', PStr ''feature''),
                                   (KStr ''feature'', convert_feature_to_result_document f)]),
             (KStr ''children'', PList kids),
             (KStr ''locations'', PSet (map KInt (locations res)))])"
  using assms
  by (simp add: splice_match_def is_successful_match_def feature_type_match feature_match_name
      Let_def split: option.split)

declare convert_match_to_result_document.simps(2) [simp del]

lemma splice_locations_returns:
  assumes "spliced_at conv pairs addrs ds"
  shows "splice_locations conv (rule_matches_of pairs) (map KInt addrs) = Some (Inr ds)"
  using assms unfolding spliced_at_def
  by (induction rule: list_all2_induct) (auto simp: splice_locations_def)

lemma splice_locations_raises:
  assumes "spliced_at conv pairs pre ds" and "rule_matches_of pairs a = None"
  shows "splice_locations conv (rule_matches_of pairs) (map KInt pre @ KInt a # map KInt post)
           = Some (Inl (KeyError (KInt a)))"
  using assms unfolding spliced_at_def
  by (induction rule: list_all2_induct) (auto simp: splice_locations_def)

lemma splice_locations_returned:
  assumes "splice_locations conv (rule_matches_of pairs) (map KInt addrs) = Some (Inr ds)"
  shows "spliced_at conv pairs addrs ds"
  using assms unfolding spliced_at_def
proof (induction addrs arbitrary: ds)
  case Nil
  then show ?case by (simp add: splice_locations_def)
next
  case (Cons a addrs)
  then show ?case
    by (auto simp: splice_locations_def cbind_def split: option.splits sum.splits)
qed

lemma append_children_keeps:
  assumes "append_children doc sp = Inr d" and "k \<noteq> KStr ''children''"
  shows "py_getitem d k = py_getitem (PDict doc) k"
  using assms
  by (auto simp: append_children_def update_conv' split: if_splits option.splits pv.splits)

lemma append_children_children:
  assumes "append_children doc sp = Inr d" and "map_of doc (KStr ''children'') = Some (PList kids)"
  shows "py_getitem d (KStr ''children'') = Inr (PList (kids @ sp))"
  using assms
  by (auto simp: append_children_def update_conv' split: if_splits option.splits pv.splits)

lemma splice_rule_locations:
  assumes "splice_rule conv h caps nm r doc = Some (Inr d)"
  shows "py_getitem d (KStr ''locations'') = py_getitem (PDict doc) (KStr ''locations'')"
proof -
  from assms obtain pairs where "map_of caps nm = Some pairs"
    by (auto simp: splice_rule_def split: option.splits)
  with assms obtain doc1 spliced where
    d1: "(if py_truthy (py_get (h (rule_meta r)) (KStr ''capa/subscope-rule'') PNone)
             then ebind (py_getitem (PDict (h (rule_meta r))) (KStr ''scope''))
               (\<lambda>scope. Inr (AList.update (KStr ''node'')
                   (PDict [(KStr ''type'', PStr ''statement''),
                           (KStr ''statement'',
                              PDict [(KStr ''type'', PStr ''subscope''),
                                     (KStr ''subscope'', map_pv Foreign scope)])]) doc))
             else Inr doc) = Inr doc1"
    and ap: "append_children doc1 spliced = Inr d"
    by (auto simp: splice_rule_def elim!: cbind_returned)
  from d1 have "py_getitem (PDict doc1) (KStr ''locations'') = py_getitem (PDict doc) (KStr ''locations'')"
    by (auto simp: update_conv' split: if_splits elim!: ebind_returned)
  with append_children_keeps [OF ap, of "KStr ''locations''"] show ?thesis by simp
qed

lemma splice_namespace_locations:
  assumes "splice_namespace conv rs caps nm doc = Some (Inr d)"
  shows "py_getitem d (KStr ''locations'') = py_getitem (PDict doc) (KStr ''locations'')"
proof -
  from assms obtain sp where "append_children doc sp = Inr d"
    by (auto simp: splice_namespace_def split: option.splits elim!: cbind_returned)
  from append_children_keeps [OF this, of "KStr ''locations''"] show ?thesis by simp
qed

lemma splice_match_locations:
  assumes "splice_match conv rs h caps doc = Some (Inr d)"
  shows "py_getitem d (KStr ''locations'') = py_getitem (PDict doc) (KStr ''locations'')"
  using assms
  by (auto simp: splice_match_def splice_rule_locations splice_namespace_locations
      split: if_splits option.splits elim!: cbind_returned)

lemma py_contains_getitem:
  "py_contains d k = (\<exists>v. py_getitem d k = Inr v)"
  by (cases d) (auto split: option.splits)

lemmas ex_defs = ex_api_def ex_match_def ex_leaf_def ex_tree_B_def ex_tree_A_def ex_rule_def
  ex_rules_def ex_heap_def ex_caps_def

lemmas splice_defs = splice_match_def is_successful_match_def splice_rule_def
  splice_namespace_def splice_locations_def append_children_def rule_matches_of_def py_get_def
  convert_feature_to_result_document_def convert_statement_to_result_document_def
  lower_def lower_char_def spliced_at_def

lemmas ex_doc_defs = ex_doc_leaf_def ex_doc_B_def ex_doc_A_def ex_document_def ex_heap_after_def

lemma convert_ex_leaf:
  "convert_match_to_result_document (Suc n) rs h caps (ex_leaf a) = Some (Inr (ex_doc_leaf a))"
  by (simp add: convert_match_to_result_document.simps(2) ex_defs ex_doc_defs splice_defs)

lemma convert_ex_tree_B:
  "convert_match_to_result_document (Suc (Suc n)) rs h caps ex_tree_B = Some (Inr ex_doc_B)"
  by (simp add: convert_match_to_result_document.simps(2) [of "Suc n"] convert_ex_leaf
      ex_tree_B_def ex_doc_B_def splice_defs)

lemma splice_rule_returned:
  assumes "splice_rule conv h caps nm r doc0 = Some (Inr d)"
    and "map_of doc0 (KStr ''children'') = Some (PList kids)"
    and "map_of doc0 (KStr ''locations'') = Some (PSet (map KInt addrs))"
  shows "\<exists>pairs spliced. map_of caps nm = Some pairs \<and> spliced_at conv pairs addrs spliced
           \<and> py_getitem d (KStr ''children'') = Inr (PList (kids @ spliced))"
proof -
  from assms(1) obtain pairs where pairs: "map_of caps nm = Some pairs"
    by (auto simp: splice_rule_def split: option.splits)
  with assms(1) obtain doc1 locs spliced where
    d1: "(if py_truthy (py_get (h (rule_meta r)) (KStr ''capa/subscope-rule'') PNone)
             then ebind (py_getitem (PDict (h (rule_meta r))) (KStr ''scope''))
               (\<lambda>scope. Inr (AList.update (KStr ''node'')
                   (PDict [(KStr ''type'', PStr ''statement''),
                           (KStr ''statement'',
                              PDict [(KStr ''type'', PStr ''subscope''),
                                     (KStr ''subscope'', map_pv Foreign scope)])]) doc0))
             else Inr doc0) = Inr doc1"
    and locs: "ebind (py_getitem (PDict doc1) (KStr ''locations'')) py_iter_keys = Inr locs"
    and sp: "splice_locations conv (rule_matches_of pairs) locs = Some (Inr spliced)"
    and ap: "append_children doc1 spliced = Inr d"
    by (auto simp: splice_rule_def elim!: cbind_returned)
  from d1 have same: "map_of doc1 (KStr ''children'') = map_of doc0 (KStr ''children'')"
    "map_of doc1 (KStr ''locations'') = map_of doc0 (KStr ''locations'')"
    by (auto simp: update_conv' split: if_splits elim!: ebind_returned)
  from locs same(2) assms(3) have "locs = map KInt addrs" by simp
  with sp have "spliced_at conv pairs addrs spliced" by (simp add: splice_locations_returned)
  moreover from append_children_children [OF ap] same(1) assms(2)
  have "py_getitem d (KStr ''children'') = Inr (PList (kids @ spliced))" by simp
  ultimately show ?thesis using pairs by blast
qed

lemma splice_namespace_returned:
  assumes "splice_namespace conv rs caps nm doc0 = Some (Inr d)"
    and "map_of doc0 (KStr ''children'') = Some (PList kids)"
    and "map_of doc0 (KStr ''locations'') = Some (PSet (map KInt addrs))"
  shows "\<exists>ns_rules per_rule. rules_by_namespace rs nm = Some ns_rules
           \<and> list_all2 (\<lambda>r ds. case map_of caps (rule_name r) of
                                  None \<Rightarrow> ds = []
                                | Some pairs \<Rightarrow> spliced_at conv pairs addrs ds) ns_rules per_rule
           \<and> py_getitem d (KStr ''children'') = Inr (PList (kids @ concat per_rule))"
proof -
  from assms(1) obtain ns_rules where ns: "rules_by_namespace rs nm = Some ns_rules"
    by (auto simp: splice_namespace_def split: option.splits)
  let ?g = "\<lambda>r. case map_of caps (rule_name r) of
                None \<Rightarrow> Some (Inr [])
              | Some pairs \<Rightarrow>
                  cbind (Some (ebind (py_getitem (PDict doc0) (KStr ''locations'')) py_iter_keys))
                    (\<lambda>locs. splice_locations conv (rule_matches_of pairs) locs)"
  from assms(1) ns obtain per_rule where
    cm: "cmap ?g ns_rules = Some (Inr per_rule)"
    and ap: "append_children doc0 (concat per_rule) = Inr d"
    by (auto simp: splice_namespace_def elim!: cbind_returned)
  have step: "(case map_of caps (rule_name r) of
                  None \<Rightarrow> ds = []
                | Some pairs \<Rightarrow> spliced_at conv pairs addrs ds)"
    if "?g r = Some (Inr ds)" for r ds
    using that assms(3) by (auto simp: splice_locations_returned split: option.splits)
  from cmap_returned [OF cm] have "list_all2 (\<lambda>r ds. case map_of caps (rule_name r) of
                                  None \<Rightarrow> ds = []
                                | Some pairs \<Rightarrow> spliced_at conv pairs addrs ds) ns_rules per_rule"
    by (rule list_all2_mono) (rule step)
  moreover from append_children_children [OF ap assms(2)]
  have "py_getitem d (KStr ''children'') = Inr (PList (kids @ concat per_rule))" .
  ultimately show ?thesis using ns by blast
qed

lemma splice_rule_subscope_returned:
  assumes "splice_rule conv h caps nm r
             [(KStr ''success'', PBool True), (KStr ''node'', nd), (KStr ''children'', PList kids),
              (KStr ''locations'', PSet (map KInt addrs))] = Some (Inr d)"
    and "is_subscope_rule h r"
  shows "\<exists>pairs scope spliced.
           map_of caps nm = Some pairs
         \<and> map_of (h (rule_meta r)) (KStr ''scope'') = Some scope
         \<and> spliced_at conv pairs addrs spliced
         \<and> d = PDict
             [(KStr ''success'', PBool True),
              (KStr ''node'', PDict [(KStr ''type'', PStr ''statement''),
                                    (KStr ''statement'', PDict [(KStr ''type'', PStr ''subscope''),
                                                               (KStr ''subscope'', map_pv Foreign scope)])]),
              (KStr ''children'', PList (kids @ spliced)),
              (KStr ''locations'', PSet (map KInt addrs))]"
proof -
  from assms(1) obtain pairs where pairs: "map_of caps nm = Some pairs"
    by (auto simp: splice_rule_def split: option.splits)
  from assms(2) have t: "py_truthy (py_get (h (rule_meta r)) (KStr ''capa/subscope-rule'') PNone)"
    by (simp add: is_subscope_rule_def)
  from assms(1) pairs t obtain scope where scope: "map_of (h (rule_meta r)) (KStr ''scope'') = Some scope"
    by (auto simp: splice_rule_def split: option.splits)
  from assms(1) pairs t scope obtain spliced where
    sp: "splice_locations conv (rule_matches_of pairs) (map KInt addrs) = Some (Inr spliced)"
    and ap: "append_children
               [(KStr ''success'', PBool True),
                (KStr ''node'', PDict [(KStr ''type'', PStr ''statement''),
                                      (KStr ''statement'', PDict [(KStr ''type'', PStr ''subscope''),
                                                                 (KStr ''subscope'', map_pv Foreign scope)])]),
                (KStr ''children'', PList kids),
                (KStr ''locations'', PSet (map KInt addrs))] spliced = Inr d"
    by (auto simp: splice_rule_def elim!: cbind_returned)
  from ap have "d = PDict
             [(KStr ''success'', PBool True),
              (KStr ''node'', PDict [(KStr ''type'', PStr ''statement''),
                                    (KStr ''statement'', PDict [(KStr ''type'', PStr ''subscope''),
                                                               (KStr ''subscope'', map_pv Foreign scope)])]),
              (KStr ''children'', PList (kids @ spliced)),
              (KStr ''locations'', PSet (map KInt addrs))]"
    by (auto simp: append_children_def split: if_splits)
  with pairs scope splice_locations_returned [OF sp] show ?thesis by blast
qed

lemma convert_ex_two_locations:
  "convert_match_to_result_document (Suc (Suc 0)) ex_rules ex_heap
       [(''Y'', [(4198401, ex_leaf 4198401), (4198408, ex_leaf 4198408)])]
       (Result True (Feature (ex_match ''Y'')) [] [4198408, 4198401])
     = Some (Inr (PDict
         [(KStr ''success'', PBool True),
          (KStr ''node'', PDict [(KStr ''type'', PStr ''feature''),
             (KStr ''feature'', PDict [(KStr ''type'', PStr ''match''), (KStr ''match'', PStr ''Y'')])]),
          (KStr ''children'', PList [ex_doc_leaf 4198408, ex_doc_leaf 4198401]),
          (KStr ''locations'', PSet [KInt 4198408, KInt 4198401])]))"
  by (simp add: convert_match_to_result_document.simps(2) ex_defs ex_doc_defs splice_defs)

text \<open>
  The example of the specification for a namespace: \<open>net\<close> holds \<open>X\<close>, with no captured
  match, and \<open>Y\<close>, matched at 0x5000; the node gets one spliced child.
\<close>

lemma convert_ex_namespace:
  "convert_match_to_result_document (Suc (Suc 0)) ex_rules ex_heap ex_caps
       (Result True (Feature (ex_match ''net'')) [] [20480])
     = Some (Inr (PDict
         [(KStr ''success'', PBool True),
          (KStr ''node'', PDict [(KStr ''type'', PStr ''feature''),
             (KStr ''feature'', PDict [(KStr ''type'', PStr ''match''), (KStr ''match'', PStr ''net'')])]),
          (KStr ''children'', PList [ex_doc_leaf 20480]),
          (KStr ''locations'', PSet [KInt 20480])]))"
  by (simp add: convert_match_to_result_document.simps(2) ex_defs ex_doc_defs splice_defs)

text \<open>
  The same namespace when \<open>X\<close> has matched too, at another address (0x4000): the loop over
  the rules of the namespace subscripts the address index of \<open>X\<close> with 0x5000.
\<close>

lemma convert_ex_namespace_other_address:
  "convert_match_to_result_document (Suc (Suc 0)) ex_rules ex_heap
       ((''X'', [(16384, ex_leaf 16384)]) # ex_caps)
       (Result True (Feature (ex_match ''net'')) [] [20480])
     = Some (Inl (KeyError (KInt 20480)))"
  by (simp add: convert_match_to_result_document.simps(2) ex_defs ex_doc_defs splice_defs)

section \<open>The claims about the splicer\<close>

text \<open>
  Claim C1. For a successful match feature that names a rule marked as a subscope rule,
  the conversion returns a document exactly when the rule has its entry in the
  capabilities, its meta holds a scope, the children convert (to \<open>kids\<close>) and the rule's
  match trees at the addresses of the node's location set convert (to \<open>spliced\<close>, address
  by address). The document then has, in place of the Feature record of the match, the
  Statement record of type "subscope" with the rule's declared scope, and its children
  are the converted children followed by the spliced trees, one for each address; the
  match feature that names the subscope rule is not in the node of the document.
\<close>

theorem subscope_rule_spliced:
  assumes "statement res = Feature f" and "feature_name f = ''match''" and "success res"
    and "rules rs (get_value_str f) = Some r"
    and "is_subscope_rule h r"
  shows "(convert_match_to_result_document (Suc n) rs h caps res = Some (Inr doc)) =
           (\<exists>pairs scope kids spliced.
               map_of caps (get_value_str f) = Some pairs
             \<and> map_of (h (rule_meta r)) (KStr ''scope'') = Some scope
             \<and> cmap (convert_match_to_result_document n rs h caps) (children res) = Some (Inr kids)
             \<and> spliced_at (convert_match_to_result_document n rs h caps) pairs (locations res) spliced
             \<and> doc = PDict
                 [(KStr ''success'', PBool True),
                  (KStr ''node'', PDict [(KStr ''type'', PStr ''statement''),
                                        (KStr ''statement'', PDict [(KStr ''type'', PStr ''subscope''),
                                                                   (KStr ''subscope'', map_pv Foreign scope)])]),
                  (KStr ''children'', PList (kids @ spliced)),
                  (KStr ''locations'', PSet (map KInt (locations res)))])"
    (is "?L = ?R")
proof
  assume ?L
  then obtain kids where
    kids: "cmap (convert_match_to_result_document n rs h caps) (children res) = Some (Inr kids)"
    by (auto simp: convert_match_to_result_document.simps(2) elim!: cbind_returned)
  from \<open>?L\<close> have "splice_rule (convert_match_to_result_document n rs h caps) h caps (get_value_str f) r
            [(KStr ''success'', PBool True),
             (KStr ''node'', PDict [(KStr ''type'', PStr ''feature''),
                                   (KStr ''feature'', convert_feature_to_result_document f)]),
             (KStr ''children'', PList kids),
             (KStr ''locations'', PSet (map KInt (locations res)))] = Some (Inr doc)"
    by (simp add: convert_match_feature_unfold [OF assms(1,2,3) kids] assms(4))
  from splice_rule_subscope_returned [OF this assms(5)] kids show ?R by blast
next
  assume ?R
  then obtain pairs scope kids spliced where
    p: "map_of caps (get_value_str f) = Some pairs"
    and s: "map_of (h (rule_meta r)) (KStr ''scope'') = Some scope"
    and k: "cmap (convert_match_to_result_document n rs h caps) (children res) = Some (Inr kids)"
    and sp: "spliced_at (convert_match_to_result_document n rs h caps) pairs (locations res) spliced"
    and d: "doc = PDict
                 [(KStr ''success'', PBool True),
                  (KStr ''node'', PDict [(KStr ''type'', PStr ''statement''),
                                        (KStr ''statement'', PDict [(KStr ''type'', PStr ''subscope''),
                                                                   (KStr ''subscope'', map_pv Foreign scope)])]),
                  (KStr ''children'', PList (kids @ spliced)),
                  (KStr ''locations'', PSet (map KInt (locations res)))]"
    by blast
  from assms(5) have t: "py_truthy (py_get (h (rule_meta r)) (KStr ''capa/subscope-rule'') PNone)"
    by (simp add: is_subscope_rule_def)
  show ?L
    by (simp add: convert_match_feature_unfold [OF assms(1,2,3) k] assms(4) p s t d splice_rule_def
        splice_locations_returns [OF sp] append_children_def)
qed

text \<open>The example of the specification: rule \<open>A\<close> references the subscope rule \<open>B\<close>.\<close>

theorem subscope_rule_spliced_witness:
  "is_subscope_rule ex_heap (ex_rule ''B'' 1)
   \<and> convert_match_to_result_document (Suc (Suc (Suc 0))) ex_rules ex_heap ex_caps ex_tree_A
       = Some (Inr ex_doc_A)"
proof -
  have sub: "is_subscope_rule ex_heap (ex_rule ''B'' 1)"
    by (simp add: is_subscope_rule_def ex_heap_def ex_rule_def py_get_def)
  have "\<exists>pairs scope kids spliced.
               map_of ex_caps (get_value_str (ex_match ''B'')) = Some pairs
             \<and> map_of (ex_heap (rule_meta (ex_rule ''B'' 1))) (KStr ''scope'') = Some scope
             \<and> cmap (convert_match_to_result_document (Suc (Suc 0)) ex_rules ex_heap ex_caps) (children ex_tree_A) = Some (Inr kids)
             \<and> spliced_at (convert_match_to_result_document (Suc (Suc 0)) ex_rules ex_heap ex_caps) pairs (locations ex_tree_A) spliced
             \<and> ex_doc_A = PDict
                 [(KStr ''success'', PBool True),
                  (KStr ''node'', PDict [(KStr ''type'', PStr ''statement''),
                                        (KStr ''statement'', PDict [(KStr ''type'', PStr ''subscope''),
                                                                   (KStr ''subscope'', map_pv Foreign scope)])]),
                  (KStr ''children'', PList (kids @ spliced)),
                  (KStr ''locations'', PSet (map KInt (locations ex_tree_A)))]"
    by (intro exI [of _ "[(4198400, ex_tree_B)]"] exI [of _ "PStr ''basic block''"]
          exI [of _ "[]"] exI [of _ "[ex_doc_B]"])
       (simp add: ex_tree_A_def ex_match_def ex_heap_def ex_caps_def ex_rule_def ex_doc_A_def
          spliced_at_def rule_matches_of_def convert_ex_tree_B)
  with subscope_rule_spliced [where res = ex_tree_A and f = "ex_match ''B''" and rs = ex_rules
      and r = "ex_rule ''B'' 1" and h = ex_heap and n = "Suc (Suc 0)" and caps = ex_caps
      and doc = ex_doc_A] sub
  show ?thesis by (simp add: ex_tree_A_def ex_match_def ex_rules_def ex_rule_def)
qed

text \<open>
  Claim C2, as the code has it. The claim says that an address of the location set with
  no entry in the referenced rule's address index is skipped. The code subscripts the
  index with every address, so the conversion fails there: below, address 0x402000 is
  in the node's location set and rule \<open>B\<close> has no match tree for it.
\<close>

theorem missing_location_counterexample:
  "rules ex_rules ''B'' = Some (ex_rule ''B'' 1) \<and> map_of ex_caps ''B'' = Some [(4198400, ex_tree_B)]
   \<and> rule_matches_of [(4198400, ex_tree_B)] 4202496 = None
   \<and> convert_match_to_result_document (Suc (Suc (Suc 0))) ex_rules ex_heap ex_caps
       (Result True (Feature (ex_match ''B'')) [] [4198400, 4202496])
     = Some (Inl (KeyError (KInt 4202496)))"
  by (simp add: convert_match_to_result_document.simps(2) ex_defs splice_defs)

text \<open>
  Claim C2, amended. For a successful match feature that names a known rule with an
  entry in the capabilities: when the trees at the addresses before \<open>a\<close> convert and the
  rule's address index has no entry for \<open>a\<close>, the conversion raises KeyError for \<open>a\<close>;
  the address is not skipped. (For a name that is a namespace, see
  \<open>convert_ex_namespace_other_address\<close> above: the claim is not amended for it.)
\<close>

theorem rule_location_without_entry_raises:
  assumes "statement res = Feature f" and "feature_name f = ''match''" and "success res"
    and "rules rs (get_value_str f) = Some r"
    and "map_of caps (get_value_str f) = Some pairs"
    and "cmap (convert_match_to_result_document n rs h caps) (children res) = Some (Inr kids)"
    and "is_subscope_rule h r \<longrightarrow> map_of (h (rule_meta r)) (KStr ''scope'') \<noteq> None"
    and "locations res = pre @ a # post"
    and "spliced_at (convert_match_to_result_document n rs h caps) pairs pre ds"
    and "rule_matches_of pairs a = None"
  shows "convert_match_to_result_document (Suc n) rs h caps res = Some (Inl (KeyError (KInt a)))"
  using assms(7)
  by (auto simp add: convert_match_feature_unfold [OF assms(1,2,3,6)] assms(4,5,8) splice_rule_def
      is_subscope_rule_def splice_locations_raises [OF assms(9,10)])

theorem rule_location_without_entry_raises_witness:
  "convert_match_to_result_document (Suc (Suc (Suc 0))) ex_rules ex_heap ex_caps
       (Result True (Feature (ex_match ''B'')) [] [4198400, 4202496])
     = Some (Inl (KeyError (KInt 4202496)))"
  using rule_location_without_entry_raises
     [where res = "Result True (Feature (ex_match ''B'')) [] [4198400, 4202496]"
      and f = "ex_match ''B''" and rs = ex_rules and caps = ex_caps and r = "ex_rule ''B'' 1"
      and pairs = "[(4198400, ex_tree_B)]" and pre = "[4198400]" and a = 4202496 and post = "[]"
      and n = "Suc (Suc 0)" and h = ex_heap and kids = "[]" and ds = "[ex_doc_B]"]
  by (simp add: ex_match_def ex_rules_def ex_heap_def ex_caps_def ex_rule_def py_get_def
      spliced_at_def rule_matches_of_def convert_ex_tree_B)

text \<open>
  Claim C3, as the code has it. The claim says that a match feature whose name is neither
  a rule nor a namespace passes through unspliced. The code takes every name that is not
  a rule for a namespace and subscripts the namespace index with it.
\<close>

theorem unknown_name_counterexample:
  "rules ex_rules ''lib/unknown'' = None \<and> rules_by_namespace ex_rules ''lib/unknown'' = None
   \<and> convert_match_to_result_document (Suc 0) ex_rules ex_heap ex_caps
       (Result True (Feature (ex_match ''lib/unknown'')) [] [4198400])
     = Some (Inl (KeyError (KStr ''lib/unknown'')))"
  by (simp add: convert_match_to_result_document.simps(2) ex_defs splice_defs)

text \<open>
  Claim C3, amended. For a successful match feature whose name is neither in the rule
  index nor in the namespace index, once the children are converted the conversion
  raises KeyError for the name; no document is returned.
\<close>

theorem unknown_name_raises:
  assumes "statement res = Feature f" and "feature_name f = ''match''" and "success res"
    and "rules rs (get_value_str f) = None"
    and "rules_by_namespace rs (get_value_str f) = None"
    and "cmap (convert_match_to_result_document n rs h caps) (children res) = Some (Inr kids)"
  shows "convert_match_to_result_document (Suc n) rs h caps res
           = Some (Inl (KeyError (KStr (get_value_str f))))"
  by (simp add: convert_match_feature_unfold [OF assms(1,2,3,6)] assms(4,5) splice_namespace_def)

theorem unknown_name_raises_witness:
  "convert_match_to_result_document (Suc 0) ex_rules ex_heap ex_caps
       (Result True (Feature (ex_match ''lib/unknown'')) [] [4198400])
     = Some (Inl (KeyError (KStr ''lib/unknown'')))"
  using unknown_name_raises [where res = "Result True (Feature (ex_match ''lib/unknown'')) [] [4198400]"
      and f = "ex_match ''lib/unknown''" and rs = ex_rules and caps = ex_caps
      and n = 0 and h = ex_heap and kids = "[]"]
  by (simp add: ex_defs)

text \<open>
  Claim C4. A document returned by \<open>convert_match_to_result_document\<close> has the key
  "locations" exactly when the node of the match result is a Feature or a Range
  statement and the result succeeded. So a node of a logical connective and a failed
  node carry no "locations".
\<close>

theorem locations_key_iff:
  assumes "convert_match_to_result_document n rs h caps res = Some (Inr doc)"
  shows "py_contains doc (KStr ''locations'')
           = ((is_Feature (statement res) \<or> is_Range (statement res)) \<and> success res)"
proof (cases n)
  case 0
  with assms show ?thesis by simp
next
  case (Suc m)
  with assms obtain nd kids doc0 where
    doc0: "doc0 = (let doc = [(KStr ''success'', PBool (success res)),
                     (KStr ''node'', nd),
                     (KStr ''children'', PList kids)]
           in (if is_Feature (statement res)
                     then (if success res
                           then AList.update (KStr ''locations'') (PSet (map KInt (locations res))) doc
                           else doc)
                     else if is_Range (statement res)
                     then (if success res
                           then AList.update (KStr ''locations'') (PSet (map KInt (locations res))) doc
                           else doc)
                     else doc))"
    and sp: "splice_match (convert_match_to_result_document m rs h caps) rs h caps doc0 = Some (Inr doc)"
    by (auto simp: convert_match_to_result_document.simps(2) Let_def elim!: cbind_returned)
  have "py_contains (PDict doc0) (KStr ''locations'')
           = ((is_Feature (statement res) \<or> is_Range (statement res)) \<and> success res)"
    by (simp add: doc0 Let_def)
  with splice_match_locations [OF sp] show ?thesis
    by (simp add: py_contains_getitem)
qed

text \<open>The tree of rule \<open>B\<close>: its root, an \<open>and\<close>, has no locations; its leaf, a feature, has.\<close>

theorem locations_key_iff_witness:
  "convert_match_to_result_document (Suc (Suc 0)) ex_rules ex_heap ex_caps ex_tree_B = Some (Inr ex_doc_B)
   \<and> \<not> py_contains ex_doc_B (KStr ''locations'')
   \<and> \<not> is_Feature (statement ex_tree_B)
   \<and> py_contains (ex_doc_leaf 4198400) (KStr ''locations'')
   \<and> is_Feature (statement (ex_leaf 4198400)) \<and> success (ex_leaf 4198400)"
proof -
  have "\<not> is_Feature (statement ex_tree_B)" "\<not> is_Range (statement ex_tree_B)"
    by (simp_all add: ex_tree_B_def)
  moreover have "is_Feature (statement (ex_leaf 4198400))" "success (ex_leaf 4198400)"
    by (simp_all add: ex_leaf_def)
  ultimately show ?thesis
    using locations_key_iff [OF convert_ex_tree_B [of 0 ex_rules ex_heap ex_caps]]
      locations_key_iff [OF convert_ex_leaf [of 0 ex_rules ex_heap ex_caps 4198400]]
    by (simp add: convert_ex_tree_B)
qed

text \<open>
  Claim C5, as the code has it. The claim says that the spliced children are appended in
  address-ascending order. The code iterates the location set as Python enumerates it
  and sorts nothing: for a set enumerated as 0x401008, 0x401001 (a set is enumerated in
  the order of its hash table, not of its values) the child for 0x401008 comes first.
\<close>

theorem spliced_order_counterexample:
  "convert_match_to_result_document (Suc (Suc 0)) ex_rules ex_heap
       [(''Y'', [(4198401, ex_leaf 4198401), (4198408, ex_leaf 4198408)])]
       (Result True (Feature (ex_match ''Y'')) [] [4198408, 4198401])
     = Some (Inr (PDict
         [(KStr ''success'', PBool True),
          (KStr ''node'', PDict [(KStr ''type'', PStr ''feature''),
             (KStr ''feature'', PDict [(KStr ''type'', PStr ''match''), (KStr ''match'', PStr ''Y'')])]),
          (KStr ''children'', PList [ex_doc_leaf 4198408, ex_doc_leaf 4198401]),
          (KStr ''locations'', PSet [KInt 4198408, KInt 4198401])]))
   \<and> [ex_doc_leaf 4198408, ex_doc_leaf 4198401] \<noteq> map ex_doc_leaf (sort [4198408, 4198401])"
  by (simp add: convert_ex_two_locations ex_doc_leaf_def)

text \<open>
  Claim C5, amended. When the conversion of a successful match feature returns, the
  children of the document are the converted children of the input tree, in their order,
  followed by the spliced children; the spliced children are the referenced rule's
  match trees at the addresses of the location set, in the order in which the set is
  enumerated (for a namespace: rule by rule in the order of the namespace index, the
  rules with an entry in the capabilities only). The conversion is a function of its
  inputs, the enumeration order among them, so converting the same input again gives the
  same order.
\<close>

theorem spliced_children_in_enumeration_order:
  assumes "statement res = Feature f" and "feature_name f = ''match''" and "success res"
    and "convert_match_to_result_document (Suc n) rs h caps res = Some (Inr doc)"
  shows "\<exists>kids spliced.
           cmap (convert_match_to_result_document n rs h caps) (children res) = Some (Inr kids)
         \<and> py_getitem doc (KStr ''children'') = Inr (PList (kids @ spliced))
         \<and> (case rules rs (get_value_str f) of
              Some r \<Rightarrow>
                \<exists>pairs. map_of caps (get_value_str f) = Some pairs
                  \<and> spliced_at (convert_match_to_result_document n rs h caps) pairs (locations res) spliced
            | None \<Rightarrow>
                \<exists>ns_rules per_rule. rules_by_namespace rs (get_value_str f) = Some ns_rules
                  \<and> spliced = concat per_rule
                  \<and> list_all2 (\<lambda>r ds. case map_of caps (rule_name r) of
                                  None \<Rightarrow> ds = []
                                | Some pairs \<Rightarrow>
                                    spliced_at (convert_match_to_result_document n rs h caps) pairs
                                      (locations res) ds) ns_rules per_rule)"
proof -
  let ?conv = "convert_match_to_result_document n rs h caps"
  from assms(4) obtain kids where kids: "cmap ?conv (children res) = Some (Inr kids)"
    by (auto simp: convert_match_to_result_document.simps(2) elim!: cbind_returned)
  let ?doc0 = "[(KStr ''success'', PBool True),
             (KStr ''node'', PDict [(KStr ''type'', PStr ''feature''),
                                   (KStr ''feature'', convert_feature_to_result_document f)]),
             (KStr ''children'', PList kids),
             (KStr ''locations'', PSet (map KInt (locations res)))]"
  have c: "map_of ?doc0 (KStr ''children'') = Some (PList kids)"
    and l: "map_of ?doc0 (KStr ''locations'') = Some (PSet (map KInt (locations res)))"
    by simp_all
  note unf = assms(4) [unfolded convert_match_feature_unfold [OF assms(1,2,3) kids]]
  show ?thesis
  proof (cases "rules rs (get_value_str f)")
    case None
    with unf have "splice_namespace ?conv rs caps (get_value_str f) ?doc0 = Some (Inr doc)" by simp
    from splice_namespace_returned [OF this c l] obtain ns_rules per_rule where
      "rules_by_namespace rs (get_value_str f) = Some ns_rules"
      "list_all2 (\<lambda>r ds. case map_of caps (rule_name r) of
                                  None \<Rightarrow> ds = []
                                | Some pairs \<Rightarrow> spliced_at ?conv pairs (locations res) ds) ns_rules per_rule"
      "py_getitem doc (KStr ''children'') = Inr (PList (kids @ concat per_rule))"
      by blast
    with kids None show ?thesis
      by (intro exI [of _ kids] exI [of _ "concat per_rule"]) auto
  next
    case (Some r)
    with unf have "splice_rule ?conv h caps (get_value_str f) r ?doc0 = Some (Inr doc)" by simp
    from splice_rule_returned [OF this c l] obtain pairs spliced where
      "map_of caps (get_value_str f) = Some pairs" "spliced_at ?conv pairs (locations res) spliced"
      "py_getitem doc (KStr ''children'') = Inr (PList (kids @ spliced))"
      by blast
    with kids Some show ?thesis
      by (intro exI [of _ kids] exI [of _ spliced]) auto
  qed
qed

theorem spliced_children_in_enumeration_order_witness:
  "\<exists>kids spliced.
      cmap (convert_match_to_result_document (Suc 0) ex_rules ex_heap
              [(''Y'', [(4198401, ex_leaf 4198401), (4198408, ex_leaf 4198408)])]) [] = Some (Inr kids)
    \<and> py_getitem (PDict
         [(KStr ''success'', PBool True),
          (KStr ''node'', PDict [(KStr ''type'', PStr ''feature''),
             (KStr ''feature'', PDict [(KStr ''type'', PStr ''match''), (KStr ''match'', PStr ''Y'')])]),
          (KStr ''children'', PList [ex_doc_leaf 4198408, ex_doc_leaf 4198401]),
          (KStr ''locations'', PSet [KInt 4198408, KInt 4198401])]) (KStr ''children'')
       = Inr (PList (kids @ spliced))
    \<and> spliced_at (convert_match_to_result_document (Suc 0) ex_rules ex_heap
              [(''Y'', [(4198401, ex_leaf 4198401), (4198408, ex_leaf 4198408)])])
         [(4198401, ex_leaf 4198401), (4198408, ex_leaf 4198408)] [4198408, 4198401] spliced"
  using spliced_children_in_enumeration_order [where res = "Result True (Feature (ex_match ''Y'')) [] [4198408, 4198401]"
      and f = "ex_match ''Y''" and n = "Suc 0" and rs = ex_rules and h = ex_heap
      and caps = "[(''Y'', [(4198401, ex_leaf 4198401), (4198408, ex_leaf 4198408)])]",
      OF _ _ _ convert_ex_two_locations]
  by (simp add: ex_match_def ex_rules_def ex_rule_def)

text \<open>
  Claim C10. A successful match feature that names a rule of the rule index which has no
  entry in the capabilities: once the children are converted, the conversion raises
  KeyError for the rule name; the node is not emitted unspliced.
\<close>

theorem known_rule_without_capabilities_raises:
  assumes "statement res = Feature f" and "feature_name f = ''match''" and "success res"
    and "rules rs (get_value_str f) = Some r"
    and "map_of caps (get_value_str f) = None"
    and "cmap (convert_match_to_result_document n rs h caps) (children res) = Some (Inr kids)"
  shows "convert_match_to_result_document (Suc n) rs h caps res
           = Some (Inl (KeyError (KStr (get_value_str f))))"
  by (simp add: convert_match_feature_unfold [OF assms(1,2,3,6)] assms(4,5) splice_rule_def)

theorem known_rule_without_capabilities_raises_witness:
  "rules ex_rules ''B'' = Some (ex_rule ''B'' 1) \<and> map_of [(''A'', [(4198400, ex_tree_A)])] ''B'' = None
     \<and> convert_match_to_result_document (Suc 0) ex_rules ex_heap [(''A'', [(4198400, ex_tree_A)])] ex_tree_A
         = Some (Inl (KeyError (KStr ''B'')))"
  using known_rule_without_capabilities_raises [where res = ex_tree_A and f = "ex_match ''B''"
      and rs = ex_rules and r = "ex_rule ''B'' 1" and caps = "[(''A'', [(4198400, ex_tree_A)])]"
      and n = 0 and h = ex_heap and kids = "[]"]
  by (simp add: ex_defs)

section \<open>Properties of the taxonomy parser and the metadata\<close>


lemma part_at_nth: "part_at parts i = (if i < length parts then parts ! i else [])"
  by (cases "drop i parts") (auto simp: part_at_def hd_drop_conv_nth [symmetric] simp del: hd_drop_conv_nth)

lemma ex_parse_T1083:
  "ex_parse_parts_id ''Discovery::File and Directory Discovery [T1083]''
     = ([''Discovery'', ''File and Directory Discovery''], ''T1083'')"
  by (simp add: ex_parse_parts_id_def split_identifier_def)

lemma convert_meta_normalize:
  "convert_meta_to_result_document ppi h m =
     ebind (normalize_meta ppi (h m)) (\<lambda>d. Inr (m, h(m := d)))"
  by (auto simp: convert_meta_to_result_document_def normalize_meta_def Let_def ebind_def
      split: sum.splits)

lemma parse_each_returned:
  assumes "parse_each parse v = Inr w"
  shows "\<exists>recs. w = PList recs \<and> parsed_records parse v recs"
proof -
  from assms obtain elems parsed where it: "py_iter v = Inr elems"
    and em: "emap (\<lambda>x. case x of PStr s \<Rightarrow> Inr (parse s) | _ \<Rightarrow> Inl AttributeError) elems = Inr parsed"
    and w: "w = PList parsed"
    by (auto simp: parse_each_def elim!: ebind_returned)
  from em have "\<exists>strs. elems = map PStr strs \<and> parsed = map parse strs"
  proof (induction elems arbitrary: parsed)
    case Nil
    then show ?case by simp
  next
    case (Cons x xs)
    from Cons.prems obtain y ys where y: "(case x of PStr s \<Rightarrow> Inr (parse s) | _ \<Rightarrow> Inl AttributeError) = Inr y"
      and ys: "emap (\<lambda>x. case x of PStr s \<Rightarrow> Inr (parse s) | _ \<Rightarrow> Inl AttributeError) xs = Inr ys"
      and p: "parsed = y # ys"
      by (auto elim!: ebind_returned)
    from y obtain s where "x = PStr s" "y = parse s" by (cases x) auto
    moreover from Cons.IH [OF ys] obtain strs where "xs = map PStr strs" "ys = map parse strs" by blast
    ultimately have "x # xs = map PStr (s # strs) \<and> parsed = map parse (s # strs)" using p by simp
    then show ?case by (rule exI [of _ "s # strs"])
  qed
  with it w show ?thesis by (auto simp: parsed_records_def)
qed

lemma normalize_meta_shape:
  assumes "normalize_meta ppi d = Inr d'"
  shows "\<exists>atts mbcs.
           d' = AList.update (KStr ''mbc'') (PList mbcs) (AList.update (KStr ''att&ck'') (PList atts) d)
         \<and> parsed_records (parse_canonical_attack ppi) (py_get d (KStr ''att&ck'') (PList [])) atts
         \<and> parsed_records (parse_canonical_mbc ppi) (py_get d (KStr ''mbc'') (PList [])) mbcs"
proof -
  from assms obtain a b where a: "parse_each (parse_canonical_attack ppi) (py_get d (KStr ''att&ck'') (PList [])) = Inr a"
    and b: "parse_each (parse_canonical_mbc ppi) (py_get (AList.update (KStr ''att&ck'') a d) (KStr ''mbc'') (PList [])) = Inr b"
    and d': "d' = AList.update (KStr ''mbc'') b (AList.update (KStr ''att&ck'') a d)"
    by (auto simp: normalize_meta_def elim!: ebind_returned)
  have same: "py_get (AList.update (KStr ''att&ck'') a d) (KStr ''mbc'') (PList []) = py_get d (KStr ''mbc'') (PList [])"
    by (simp add: py_get_def update_conv')
  from parse_each_returned [OF a] parse_each_returned [OF b [unfolded same]] d'
  show ?thesis by auto
qed

lemma normalize_meta_other_keys:
  assumes "normalize_meta ppi d = Inr d'" and "k \<noteq> KStr ''att&ck''" and "k \<noteq> KStr ''mbc''"
  shows "map_of d' k = map_of d k"
  using normalize_meta_shape [OF assms(1)] assms(2,3) by (auto simp: update_conv')

lemma parsed_records_of_records:
  assumes "parsed_records (parse_canonical_attack ppi) (PList (map (parse_canonical_attack ppi) strs)) recs
         \<or> parsed_records (parse_canonical_mbc ppi) (PList (map (parse_canonical_mbc ppi) strs)) recs
         \<or> parsed_records (parse_canonical_attack ppi) (PList (map (parse_canonical_mbc ppi) strs)) recs
         \<or> parsed_records (parse_canonical_mbc ppi) (PList (map (parse_canonical_attack ppi) strs)) recs"
  shows "recs = [] \<and> strs = []"
  using assms
  by (cases strs) (auto simp: parsed_records_def parse_canonical_attack_def parse_canonical_mbc_def
      Let_def split: prod.splits)


lemma normalize_meta_again:
  assumes "normalize_meta ppi d = Inr d1" and "normalize_meta ppi d1 = Inr d2"
  shows "d2 = d1"
proof -
  from normalize_meta_shape [OF assms(1)] obtain atts mbcs where
    d1: "d1 = AList.update (KStr ''mbc'') (PList mbcs) (AList.update (KStr ''att&ck'') (PList atts) d)"
    and a: "parsed_records (parse_canonical_attack ppi) (py_get d (KStr ''att&ck'') (PList [])) atts"
    and b: "parsed_records (parse_canonical_mbc ppi) (py_get d (KStr ''mbc'') (PList [])) mbcs"
    by blast
  from a obtain strs where atts: "atts = map (parse_canonical_attack ppi) strs"
    by (auto simp: parsed_records_def)
  from b obtain strs' where mbcs: "mbcs = map (parse_canonical_mbc ppi) strs'"
    by (auto simp: parsed_records_def)
  have g1: "map_of d1 (KStr ''att&ck'') = Some (PList atts)"
    and g2: "map_of d1 (KStr ''mbc'') = Some (PList mbcs)"
    by (simp_all add: d1 update_conv')
  from normalize_meta_shape [OF assms(2)] obtain atts2 mbcs2 where
    d2: "d2 = AList.update (KStr ''mbc'') (PList mbcs2) (AList.update (KStr ''att&ck'') (PList atts2) d1)"
    and a2: "parsed_records (parse_canonical_attack ppi) (py_get d1 (KStr ''att&ck'') (PList [])) atts2"
    and b2: "parsed_records (parse_canonical_mbc ppi) (py_get d1 (KStr ''mbc'') (PList [])) mbcs2"
    by blast
  from a2 g1 atts have "atts2 = [] \<and> strs = []"
    using parsed_records_of_records [of ppi strs atts2] by (simp add: py_get_def)
  moreover from b2 g2 mbcs have "mbcs2 = [] \<and> strs' = []"
    using parsed_records_of_records [of ppi strs' mbcs2] by (simp add: py_get_def)
  ultimately have "atts2 = atts" "mbcs2 = mbcs" using atts mbcs by simp_all
  with d2 g1 g2 show ?thesis by (simp add: update_triv)
qed

lemma normalize_meta_subscope:
  assumes "normalize_meta ppi (h m) = Inr d"
  shows "is_subscope_rule (h(m := d)) r = is_subscope_rule h r"
  using normalize_meta_other_keys [OF assms, of "KStr ''capa/subscope-rule''"]
  by (simp add: is_subscope_rule_def py_get_def)

lemma converts_Cons:
  "converts rs h ((nm, ms) # items) rname r =
     ((rname = nm \<and> rules rs nm = Some r \<and> \<not> is_subscope_rule h r) \<or> converts rs h items rname r)"
  by (auto simp: converts_def)

lemma converts_heap:
  assumes "normalize_meta ppi (h m) = Inr d"
  shows "converts rs (h(m := d)) items rname r = converts rs h items rname r"
  by (simp add: converts_def normalize_meta_subscope [where h = h and m = m, OF assms])

lemma convert_rules_invariant:
  assumes "convert_rules n ppi rs caps items acc h = Some (Inr (out, h'))"
  shows "(\<forall>rname r. converts rs h items rname r \<longrightarrow> normalize_meta ppi (h (rule_meta r)) = Inr (h' (rule_meta r)))
       \<and> (\<forall>ref. (\<forall>rname r. converts rs h items rname r \<longrightarrow> rule_meta r \<noteq> ref) \<longrightarrow> h' ref = h ref)
       \<and> (\<forall>k. (\<forall>rname r. converts rs h items rname r \<longrightarrow> k \<noteq> KStr rname) \<longrightarrow> map_of out k = map_of acc k)
       \<and> (\<forall>rname r. converts rs h items rname r \<longrightarrow>
            (\<exists>e. map_of out (KStr rname) = Some e
                \<and> py_getitem e (KStr ''meta'') = Inr (PObj (MetaRef (rule_meta r)))))"
  using assms
proof (induction items arbitrary: acc h)
  case Nil
  then show ?case by (simp add: converts_def)
next
  case (Cons item items)
  obtain nm ms where item: "item = (nm, ms)" by (cases item)
  from Cons.prems obtain r0 where r0: "rules rs nm = Some r0"
    by (auto simp: item split: option.splits)
  show ?case
  proof (cases "is_subscope_rule h r0")
    case True
    with Cons.prems r0 have run: "convert_rules n ppi rs caps items acc h = Some (Inr (out, h'))"
      by (simp add: item is_subscope_rule_def)
    have same: "\<And>rname r. converts rs h (item # items) rname r = converts rs h items rname r"
      using True r0 by (auto simp: item converts_Cons)
    from Cons.IH [OF run] show ?thesis by (simp only: same)
  next
    case False
    let ?m = "rule_meta r0"
    from Cons.prems r0 False obtain d1 entries where
      d1: "normalize_meta ppi (h ?m) = Inr d1"
      and run: "convert_rules n ppi rs caps items
                  (AList.update (KStr nm)
                     (PDict [(KStr ''meta'', PObj (MetaRef ?m)),
                             (KStr ''source'', PStr (rule_definition r0)),
                             (KStr ''matches'', PDict (dict_of entries))]) acc)
                  (h(?m := d1)) = Some (Inr (out, h'))"
      by (auto simp: item is_subscope_rule_def convert_meta_normalize
          elim!: cbind_returned ebind_returned)
    let ?h1 = "h(?m := d1)"
    let ?acc1 = "AList.update (KStr nm)
                     (PDict [(KStr ''meta'', PObj (MetaRef ?m)),
                             (KStr ''source'', PStr (rule_definition r0)),
                             (KStr ''matches'', PDict (dict_of entries))]) acc"
    note IH = Cons.IH [OF run, unfolded converts_heap [where h = h and m = "rule_meta r0", OF d1]]
    from IH have ih1: "\<And>rname r. converts rs h items rname r \<Longrightarrow>
        normalize_meta ppi (?h1 (rule_meta r)) = Inr (h' (rule_meta r))"
      and ih2: "\<And>ref. (\<And>rname r. converts rs h items rname r \<Longrightarrow> rule_meta r \<noteq> ref) \<Longrightarrow> h' ref = ?h1 ref"
      and ih3: "\<And>k. (\<And>rname r. converts rs h items rname r \<Longrightarrow> k \<noteq> KStr rname) \<Longrightarrow> map_of out k = map_of ?acc1 k"
      and ih4: "\<And>rname r. converts rs h items rname r \<Longrightarrow>
            (\<exists>e. map_of out (KStr rname) = Some e
                \<and> py_getitem e (KStr ''meta'') = Inr (PObj (MetaRef (rule_meta r))))"
      by blast+
    have head: "\<And>rname r. converts rs h (item # items) rname r =
        ((rname = nm \<and> r = r0) \<or> converts rs h items rname r)"
      using r0 False by (auto simp: item converts_Cons)
    have m_final: "h' ?m = d1"
    proof (cases "\<exists>rname r. converts rs h items rname r \<and> rule_meta r = ?m")
      case True
      then obtain rname r where "converts rs h items rname r" "rule_meta r = ?m" by blast
      from ih1 [OF this(1)] this(2) have "normalize_meta ppi d1 = Inr (h' ?m)" by simp
      from normalize_meta_again [OF d1 this] show ?thesis .
    next
      case False
      then have "h' ?m = ?h1 ?m" by (intro ih2) blast
      then show ?thesis by simp
    qed
    have c1: "\<forall>rname r. converts rs h (item # items) rname r \<longrightarrow>
         normalize_meta ppi (h (rule_meta r)) = Inr (h' (rule_meta r))"
    proof (intro allI impI)
      fix rname r assume c: "converts rs h (item # items) rname r"
      show "normalize_meta ppi (h (rule_meta r)) = Inr (h' (rule_meta r))"
      proof (cases "rule_meta r = ?m")
        case True
        with d1 m_final show ?thesis by simp
      next
        case False
        with c head have "converts rs h items rname r" by auto
        from ih1 [OF this] False show ?thesis by simp
      qed
    qed
    have c2: "\<forall>ref. (\<forall>rname r. converts rs h (item # items) rname r \<longrightarrow> rule_meta r \<noteq> ref) \<longrightarrow> h' ref = h ref"
    proof (intro allI impI)
      fix ref assume a: "\<forall>rname r. converts rs h (item # items) rname r \<longrightarrow> rule_meta r \<noteq> ref"
      then have "?m \<noteq> ref" using head by blast
      moreover have "h' ref = ?h1 ref" using a head by (intro ih2) blast
      ultimately show "h' ref = h ref" by simp
    qed
    have c3: "\<forall>k. (\<forall>rname r. converts rs h (item # items) rname r \<longrightarrow> k \<noteq> KStr rname) \<longrightarrow> map_of out k = map_of acc k"
    proof (intro allI impI)
      fix k assume a: "\<forall>rname r. converts rs h (item # items) rname r \<longrightarrow> k \<noteq> KStr rname"
      then have "k \<noteq> KStr nm" using head by blast
      moreover have "map_of out k = map_of ?acc1 k" using a head by (intro ih3) blast
      ultimately show "map_of out k = map_of acc k" by (simp add: update_conv')
    qed
    have c4: "\<forall>rname r. converts rs h (item # items) rname r \<longrightarrow>
            (\<exists>e. map_of out (KStr rname) = Some e
                \<and> py_getitem e (KStr ''meta'') = Inr (PObj (MetaRef (rule_meta r))))"
    proof (intro allI impI)
      fix rname r assume c: "converts rs h (item # items) rname r"
      show "\<exists>e. map_of out (KStr rname) = Some e
                \<and> py_getitem e (KStr ''meta'') = Inr (PObj (MetaRef (rule_meta r)))"
      proof (cases "converts rs h items rname r")
        case True
        from ih4 [OF this] show ?thesis .
      next
        case False
        with c head have eq: "rname = nm" "r = r0" by auto
        have "map_of out (KStr nm) = map_of ?acc1 (KStr nm)"
        proof (rule ih3)
          fix rname' r' assume "converts rs h items rname' r'"
          then show "KStr nm \<noteq> KStr rname'"
            using False eq r0 by (auto simp: converts_def)
        qed
        then show ?thesis by (simp add: eq update_conv')
      qed
    qed
    from c1 c2 c3 c4 show ?thesis by blast
  qed
qed

lemma convert_capabilities_returned:
  assumes "convert_capabilities_to_result_document n ppi meta rs h caps = Some (Inr (doc, h'))"
  obtains doc_rules where
    "convert_rules n ppi rs caps caps [] h = Some (Inr (doc_rules, h'))"
    "doc = PDict [(KStr ''meta'', meta), (KStr ''rules'', PDict doc_rules)]"
  using assms
  by (auto simp: convert_capabilities_to_result_document_def elim!: cbind_returned)


lemma ex_run:
  "convert_capabilities_to_result_document (Suc (Suc (Suc 0))) ex_parse_parts_id (PDict [])
       ex_rules ex_heap ex_caps
     = Some (Inr (ex_document, ex_heap_after))"
  by (simp add: convert_capabilities_to_result_document_def ex_defs ex_doc_defs
      convert_meta_to_result_document_def py_get_def parse_each_def
      ex_parse_T1083 parse_canonical_attack_def part_at_def Let_def dict_of_def
      convert_match_to_result_document.simps(2) splice_defs)

lemma splice_rule_heap:
  assumes "\<And>k. k \<noteq> KStr ''att&ck'' \<Longrightarrow> k \<noteq> KStr ''mbc'' \<Longrightarrow> map_of (h1 (rule_meta r)) k = map_of (h (rule_meta r)) k"
  shows "splice_rule conv h1 caps rname r doc = splice_rule conv h caps rname r doc"
  using assms [of "KStr ''capa/subscope-rule''"] assms [of "KStr ''scope''"]
  by (simp add: splice_rule_def py_get_def split: option.split)

lemma convert_match_heap:
  assumes "\<And>ref k. k \<noteq> KStr ''att&ck'' \<Longrightarrow> k \<noteq> KStr ''mbc'' \<Longrightarrow> map_of (h1 ref) k = map_of (h ref) k"
  shows "convert_match_to_result_document n rs h1 caps = convert_match_to_result_document n rs h caps"
proof (induction n)
  case 0
  show ?case by (rule ext) simp
next
  case (Suc n)
  have r: "splice_rule conv h1 caps rname r doc = splice_rule conv h caps rname r doc" for conv rname r doc
    by (rule splice_rule_heap) (rule assms)
  have "splice_match conv rs h1 caps doc = splice_match conv rs h caps doc" for conv doc
    unfolding splice_match_def r ..
  then show ?case
    by (intro ext) (simp add: convert_match_to_result_document.simps(2) Suc)
qed

lemma emap_strings:
  "emap (\<lambda>x. case x of PStr s \<Rightarrow> Inr (parse s) | _ \<Rightarrow> Inl AttributeError) (map PStr strs)
     = Inr (map parse strs)"
  by (induction strs) simp_all

lemma parse_each_strings:
  assumes "py_iter v = Inr (map PStr strs)"
  shows "parse_each parse v = Inr (PList (map parse strs))"
  using assms by (simp add: parse_each_def emap_strings)

lemma normalize_meta_returns:
  assumes "taxonomy_strings d (KStr ''att&ck'')" and "taxonomy_strings d (KStr ''mbc'')"
  shows "\<exists>d'. normalize_meta ppi d = Inr d'"
proof -
  from assms obtain as ms where a: "py_iter (py_get d (KStr ''att&ck'') (PList [])) = Inr (map PStr as)"
    and m: "py_iter (py_get d (KStr ''mbc'') (PList [])) = Inr (map PStr ms)"
    by (auto simp: taxonomy_strings_def)
  have same: "py_get (AList.update (KStr ''att&ck'') a' d) (KStr ''mbc'') (PList []) = py_get d (KStr ''mbc'') (PList [])" for a'
    by (simp add: py_get_def update_conv')
  show ?thesis
    by (simp add: normalize_meta_def parse_each_strings [OF a] same parse_each_strings [OF m])
qed

lemma cmap_returns:
  assumes "\<And>x. x \<in> set xs \<Longrightarrow> \<exists>y. f x = Some (Inr y)"
  shows "\<exists>ys. cmap f xs = Some (Inr ys)"
  using assms
proof (induction xs)
  case Nil
  show ?case by simp
next
  case (Cons x xs)
  from Cons.prems [of x] obtain y where y: "f x = Some (Inr y)" by auto
  from Cons.IH Cons.prems obtain ys where "cmap f xs = Some (Inr ys)" by auto
  with y show ?case by simp
qed

lemma convert_rules_returns:
  assumes names: "\<forall>rname \<in> fst ` set items. rules rs rname \<noteq> None"
    and dist: "distinct (map fst items)"
    and own: "own_meta rs h items"
    and strs: "\<forall>rname r. converts rs h items rname r \<longrightarrow>
                 taxonomy_strings (h (rule_meta r)) (KStr ''att&ck'')
               \<and> taxonomy_strings (h (rule_meta r)) (KStr ''mbc'')"
    and trees: "\<forall>rname r ms a t. converts rs h items rname r \<and> (rname, ms) \<in> set items \<and> (a, t) \<in> set ms
                 \<longrightarrow> (\<exists>d. convert_match_to_result_document n rs h caps t = Some (Inr d))"
  shows "\<exists>out h'. convert_rules n ppi rs caps items acc h = Some (Inr (out, h'))"
  using assms
proof (induction items arbitrary: acc h)
  case Nil
  show ?case by simp
next
  case (Cons item items)
  obtain nm ms where item: "item = (nm, ms)" by (cases item)
  from Cons.prems(1) obtain r0 where r0: "rules rs nm = Some r0" by (auto simp: item)
  have names': "\<forall>rname \<in> fst ` set items. rules rs rname \<noteq> None" using Cons.prems(1) by simp
  have dist': "distinct (map fst items)" and fresh: "nm \<notin> fst ` set items"
    using Cons.prems(2) by (simp_all add: item)
  show ?case
  proof (cases "is_subscope_rule h r0")
    case True
    have same: "\<And>rname r. converts rs h (item # items) rname r = converts rs h items rname r"
      using True r0 by (auto simp: item converts_Cons)
    have "\<exists>out h'. convert_rules n ppi rs caps items acc h = Some (Inr (out, h'))"
    proof (rule Cons.IH [OF names' dist'])
      show "own_meta rs h items" using Cons.prems(3) unfolding own_meta_def same .
      show "\<forall>rname r. converts rs h items rname r \<longrightarrow>
                 taxonomy_strings (h (rule_meta r)) (KStr ''att&ck'')
               \<and> taxonomy_strings (h (rule_meta r)) (KStr ''mbc'')"
        using Cons.prems(4) by (simp add: same)
      show "\<forall>rname r ms a t. converts rs h items rname r \<and> (rname, ms) \<in> set items \<and> (a, t) \<in> set ms
                 \<longrightarrow> (\<exists>d. convert_match_to_result_document n rs h caps t = Some (Inr d))"
      proof (intro allI impI, elim conjE)
        fix rname r ms' a t
        assume c: "converts rs h items rname r" and mem: "(rname, ms') \<in> set items" and at: "(a, t) \<in> set ms'"
        from c have c': "converts rs h (item # items) rname r" by (simp add: same)
        from mem have mem': "(rname, ms') \<in> set (item # items)" by simp
        from Cons.prems(5) [rule_format, OF conjI [OF c' conjI [OF mem' at]]]
        show "\<exists>d. convert_match_to_result_document n rs h caps t = Some (Inr d)" .
      qed
    qed
    with True r0 show ?thesis by (simp add: item is_subscope_rule_def)
  next
    case False
    let ?m = "rule_meta r0"
    have head: "\<And>rname r. converts rs h (item # items) rname r =
        ((rname = nm \<and> r = r0) \<or> converts rs h items rname r)"
      using r0 False by (auto simp: item converts_Cons)
    have c0: "converts rs h (item # items) nm r0" by (simp add: head)
    from Cons.prems(4) c0 have "taxonomy_strings (h ?m) (KStr ''att&ck'')" "taxonomy_strings (h ?m) (KStr ''mbc'')"
      by blast+
    from normalize_meta_returns [OF this] obtain d1 where d1: "normalize_meta ppi (h ?m) = Inr d1" by blast
    let ?h1 = "h(?m := d1)"
    have agree: "map_of (?h1 ref) k = map_of (h ref) k" if "k \<noteq> KStr ''att&ck''" "k \<noteq> KStr ''mbc''" for ref k
      using normalize_meta_other_keys [OF d1 that] by simp
    have conv: "convert_match_to_result_document n rs ?h1 caps = convert_match_to_result_document n rs h caps"
      by (rule convert_match_heap) (rule agree)
    have cs: "converts rs ?h1 items rname r = converts rs h items rname r" for rname r
      by (rule converts_heap [where h = h and m = "rule_meta r0", OF d1])
    have other: "rule_meta r \<noteq> ?m" if "converts rs h items rname r" for rname r
    proof
      assume e: "rule_meta r = ?m"
      from that have "converts rs h (item # items) rname r" by (simp add: head)
      with c0 e Cons.prems(3) have "rname = nm" unfolding own_meta_def by blast
      with that fresh show False by (simp add: converts_def)
    qed
    have "\<exists>entries. cmap (\<lambda>(addr, m). cbind (convert_match_to_result_document n rs ?h1 caps m)
                          (\<lambda>d. Some (Inr (KInt addr, d)))) ms = Some (Inr entries)"
    proof (rule cmap_returns)
      fix x assume x: "x \<in> set ms"
      obtain a t where at: "x = (a, t)" by (cases x)
      have mem0: "(nm, ms) \<in> set (item # items)" by (simp add: item)
      from x have x': "(a, t) \<in> set ms" by (simp add: at)
      from Cons.prems(5) [rule_format, OF conjI [OF c0 conjI [OF mem0 x']]]
      obtain d where "convert_match_to_result_document n rs h caps t = Some (Inr d)" by blast
      then show "\<exists>y. (case x of (addr, m) \<Rightarrow> cbind (convert_match_to_result_document n rs ?h1 caps m)
                          (\<lambda>d. Some (Inr (KInt addr, d)))) = Some (Inr y)"
        by (simp add: at conv)
    qed
    then obtain entries where entries: "cmap (\<lambda>(addr, m). cbind (convert_match_to_result_document n rs ?h1 caps m)
                          (\<lambda>d. Some (Inr (KInt addr, d)))) ms = Some (Inr entries)" by blast
    have "\<exists>out h'. convert_rules n ppi rs caps items
                  (AList.update (KStr nm)
                     (PDict [(KStr ''meta'', PObj (MetaRef ?m)),
                             (KStr ''source'', PStr (rule_definition r0)),
                             (KStr ''matches'', PDict (dict_of entries))]) acc) ?h1 = Some (Inr (out, h'))"
    proof (rule Cons.IH [OF names' dist'])
      show "own_meta rs ?h1 items"
        unfolding own_meta_def cs
      proof (intro allI impI, elim conjE)
        fix rname r rname' r'
        assume "converts rs h items rname r" "converts rs h items rname' r'" "rule_meta r = rule_meta r'"
        then have "converts rs h (item # items) rname r \<and> converts rs h (item # items) rname' r'
                     \<and> rule_meta r = rule_meta r'" by (simp add: head)
        with Cons.prems(3) show "rname = rname'" unfolding own_meta_def by blast
      qed
      show "\<forall>rname r. converts rs ?h1 items rname r \<longrightarrow>
                 taxonomy_strings (?h1 (rule_meta r)) (KStr ''att&ck'')
               \<and> taxonomy_strings (?h1 (rule_meta r)) (KStr ''mbc'')"
        using Cons.prems(4) other by (simp add: cs head)
      show "\<forall>rname r ms a t. converts rs ?h1 items rname r \<and> (rname, ms) \<in> set items \<and> (a, t) \<in> set ms
                 \<longrightarrow> (\<exists>d. convert_match_to_result_document n rs ?h1 caps t = Some (Inr d))"
        unfolding cs conv
      proof (intro allI impI, elim conjE)
        fix rname r ms' a t
        assume c: "converts rs h items rname r" and mem: "(rname, ms') \<in> set items" and at: "(a, t) \<in> set ms'"
        from c have c': "converts rs h (item # items) rname r" by (simp add: head)
        from mem have mem': "(rname, ms') \<in> set (item # items)" by simp
        from Cons.prems(5) [rule_format, OF conjI [OF c' conjI [OF mem' at]]]
        show "\<exists>d. convert_match_to_result_document n rs h caps t = Some (Inr d)" .
      qed
    qed
    with False r0 d1 entries show ?thesis
      by (simp add: item is_subscope_rule_def convert_meta_normalize)
  qed
qed

lemma convert_meta_strings:
  assumes a: "py_iter (py_get (h m) (KStr ''att&ck'') (PList [])) = Inr (map PStr as)"
    and b: "py_iter (py_get (h m) (KStr ''mbc'') (PList [])) = Inr (map PStr bs)"
  shows "convert_meta_to_result_document ppi h m
           = Inr (m, h(m := AList.update (KStr ''mbc'') (PList (map (parse_canonical_mbc ppi) bs))
                             (AList.update (KStr ''att&ck'') (PList (map (parse_canonical_attack ppi) as)) (h m))))"
proof -
  have same: "py_get (AList.update (KStr ''att&ck'') a' (h m)) (KStr ''mbc'') (PList []) = py_get (h m) (KStr ''mbc'') (PList [])" for a'
    by (simp add: py_get_def update_conv')
  show ?thesis
    by (simp add: convert_meta_normalize normalize_meta_def parse_each_strings [OF a] same
        parse_each_strings [OF b])
qed

lemma convert_capabilities_returns:
  assumes "\<forall>rname \<in> fst ` set caps. rules rs rname \<noteq> None"
    and "distinct (map fst caps)"
    and "own_meta rs h caps"
    and "\<forall>rname r. converts rs h caps rname r \<longrightarrow>
                 taxonomy_strings (h (rule_meta r)) (KStr ''att&ck'')
               \<and> taxonomy_strings (h (rule_meta r)) (KStr ''mbc'')"
    and "\<forall>rname r ms a t. converts rs h caps rname r \<and> (rname, ms) \<in> set caps \<and> (a, t) \<in> set ms
                 \<longrightarrow> (\<exists>d. convert_match_to_result_document n rs h caps t = Some (Inr d))"
  shows "\<exists>doc h'. convert_capabilities_to_result_document n ppi meta rs h caps = Some (Inr (doc, h'))"
proof -
  from convert_rules_returns [OF assms, of ppi "[]"]
  obtain out h' where "convert_rules n ppi rs caps caps [] h = Some (Inr (out, h'))" by blast
  then show ?thesis by (simp add: convert_capabilities_to_result_document_def)
qed


lemma convert_capabilities_meta:
  assumes "convert_capabilities_to_result_document n ppi meta rs h caps = Some (Inr (doc, h'))"
    and "rname \<in> fst ` set caps" and "rules rs rname = Some r" and "\<not> is_subscope_rule h r"
  shows "py_path doc [KStr ''rules'', KStr rname, KStr ''meta''] = Inr (PObj (MetaRef (rule_meta r)))
     \<and> (\<exists>atts mbcs.
           h' (rule_meta r) = AList.update (KStr ''mbc'') (PList mbcs)
                               (AList.update (KStr ''att&ck'') (PList atts) (h (rule_meta r)))
         \<and> parsed_records (parse_canonical_attack ppi)
              (py_get (h (rule_meta r)) (KStr ''att&ck'') (PList [])) atts
         \<and> parsed_records (parse_canonical_mbc ppi)
              (py_get (h (rule_meta r)) (KStr ''mbc'') (PList [])) mbcs
         \<and> (map_of (h (rule_meta r)) (KStr ''att&ck'') = None \<longrightarrow> atts = [])
         \<and> (map_of (h (rule_meta r)) (KStr ''mbc'') = None \<longrightarrow> mbcs = []))
     \<and> (\<forall>ref k. k \<noteq> KStr ''att&ck'' \<longrightarrow> k \<noteq> KStr ''mbc'' \<longrightarrow> map_of (h' ref) k = map_of (h ref) k)"
proof -
  from assms(1) obtain doc_rules where
    run: "convert_rules n ppi rs caps caps [] h = Some (Inr (doc_rules, h'))"
    and doc: "doc = PDict [(KStr ''meta'', meta), (KStr ''rules'', PDict doc_rules)]"
    by (rule convert_capabilities_returned)
  have c: "converts rs h caps rname r" using assms(2,3,4) by (simp add: converts_def)
  note inv = convert_rules_invariant [OF run]
  from inv c obtain e where "map_of doc_rules (KStr rname) = Some e"
    "py_getitem e (KStr ''meta'') = Inr (PObj (MetaRef (rule_meta r)))" by blast
  with doc have p1: "py_path doc [KStr ''rules'', KStr rname, KStr ''meta''] = Inr (PObj (MetaRef (rule_meta r)))"
    by simp
  from inv c have nm: "normalize_meta ppi (h (rule_meta r)) = Inr (h' (rule_meta r))" by blast
  from normalize_meta_shape [OF nm] obtain atts mbcs where
    sh: "h' (rule_meta r) = AList.update (KStr ''mbc'') (PList mbcs)
                               (AList.update (KStr ''att&ck'') (PList atts) (h (rule_meta r)))"
    and a: "parsed_records (parse_canonical_attack ppi)
              (py_get (h (rule_meta r)) (KStr ''att&ck'') (PList [])) atts"
    and b: "parsed_records (parse_canonical_mbc ppi)
              (py_get (h (rule_meta r)) (KStr ''mbc'') (PList [])) mbcs"
    by blast
  from a have a0: "map_of (h (rule_meta r)) (KStr ''att&ck'') = None \<longrightarrow> atts = []"
    by (auto simp: parsed_records_def py_get_def)
  from b have b0: "map_of (h (rule_meta r)) (KStr ''mbc'') = None \<longrightarrow> mbcs = []"
    by (auto simp: parsed_records_def py_get_def)
  have p3: "map_of (h' ref) k = map_of (h ref) k" if "k \<noteq> KStr ''att&ck''" "k \<noteq> KStr ''mbc''" for ref k
  proof (cases "\<exists>rname r. converts rs h caps rname r \<and> rule_meta r = ref")
    case True
    then obtain rname' r' where "converts rs h caps rname' r'" "rule_meta r' = ref" by blast
    with inv have "normalize_meta ppi (h ref) = Inr (h' ref)" by blast
    from normalize_meta_other_keys [OF this that] show ?thesis .
  next
    case False
    with inv have "h' ref = h ref" by blast
    then show ?thesis by simp
  qed
  have p2: "\<exists>atts mbcs.
           h' (rule_meta r) = AList.update (KStr ''mbc'') (PList mbcs)
                               (AList.update (KStr ''att&ck'') (PList atts) (h (rule_meta r)))
         \<and> parsed_records (parse_canonical_attack ppi)
              (py_get (h (rule_meta r)) (KStr ''att&ck'') (PList [])) atts
         \<and> parsed_records (parse_canonical_mbc ppi)
              (py_get (h (rule_meta r)) (KStr ''mbc'') (PList [])) mbcs
         \<and> (map_of (h (rule_meta r)) (KStr ''att&ck'') = None \<longrightarrow> atts = [])
         \<and> (map_of (h (rule_meta r)) (KStr ''mbc'') = None \<longrightarrow> mbcs = [])"
    using sh a b a0 b0 by (intro exI [of _ atts] exI [of _ mbcs]) simp
  from p3 have "\<forall>ref k. k \<noteq> KStr ''att&ck'' \<longrightarrow> k \<noteq> KStr ''mbc'' \<longrightarrow> map_of (h' ref) k = map_of (h ref) k"
    by simp
  with p1 p2 show ?thesis by (intro conjI)
qed

lemma ex_converts:
  "converts ex_rules ex_heap ex_caps rname r
     = ((rname = ''A'' \<and> r = ex_rule ''A'' 0) \<or> (rname = ''Y'' \<and> r = ex_rule ''Y'' 3))"
  by (auto simp: converts_def ex_caps_def ex_rules_def ex_heap_def ex_rule_def is_subscope_rule_def py_get_def)

lemma ex_convert_tree_A:
  "\<exists>d. convert_match_to_result_document (Suc (Suc (Suc 0))) ex_rules ex_heap ex_caps ex_tree_A = Some (Inr d)"
  by (simp add: ex_defs convert_match_to_result_document.simps(2) splice_defs)

lemma ex_taxonomy_strings:
  "taxonomy_strings (ex_heap 0) (KStr ''att&ck'')" "taxonomy_strings (ex_heap 0) (KStr ''mbc'')"
  "taxonomy_strings (ex_heap 3) (KStr ''att&ck'')" "taxonomy_strings (ex_heap 3) (KStr ''mbc'')"
proof -
  have "py_iter (py_get (ex_heap 0) (KStr ''att&ck'') (PList []))
          = Inr (map PStr [''Discovery::File and Directory Discovery [T1083]''])"
    by (simp add: ex_heap_def py_get_def)
  then show "taxonomy_strings (ex_heap 0) (KStr ''att&ck'')" unfolding taxonomy_strings_def by (rule exI)
  have e: "py_iter (py_get d k (PList [])) = Inr (map PStr [])" if "map_of d k = None" for d :: "(key \<times> string pv) list" and k
    using that by (simp add: py_get_def)
  show "taxonomy_strings (ex_heap 0) (KStr ''mbc'')" unfolding taxonomy_strings_def
    by (rule exI, rule e) (simp add: ex_heap_def)
  show "taxonomy_strings (ex_heap 3) (KStr ''att&ck'')" unfolding taxonomy_strings_def
    by (rule exI, rule e) (simp add: ex_heap_def)
  show "taxonomy_strings (ex_heap 3) (KStr ''mbc'')" unfolding taxonomy_strings_def
    by (rule exI, rule e) (simp add: ex_heap_def)
qed

section \<open>The claims about the taxonomy parser, the metadata and the assembler\<close>

text \<open>
  Claim C7. For every taxonomy string, with the parts and the identifier that
  \<open>parse_parts_id\<close> returns for it, \<open>parse_canonical_attack\<close> and \<open>parse_canonical_mbc\<close>
  return the record that holds the ordered parts list and the identifier, and whose three
  named fields are the first, second and third part, each the empty string when the list
  has no part at its position. The parsers are total: they read a part only where the
  list has one.
\<close>

theorem parse_canonical_positional:
  assumes "parse_parts_id s = (parts, ident)"
  shows "parse_canonical_attack parse_parts_id s =
           (PDict [(KStr ''parts'', PList (map PStr parts)),
                  (KStr ''id'', PStr ident),
                  (KStr ''tactic'', PStr (part_at parts 0)),
                  (KStr ''technique'', PStr (part_at parts 1)),
                  (KStr ''subtechnique'', PStr (part_at parts 2))] :: 'o pv)
       \<and> parse_canonical_mbc parse_parts_id s =
           (PDict [(KStr ''parts'', PList (map PStr parts)),
                  (KStr ''id'', PStr ident),
                  (KStr ''objective'', PStr (part_at parts 0)),
                  (KStr ''behavior'', PStr (part_at parts 1)),
                  (KStr ''method'', PStr (part_at parts 2))] :: 'o pv)"
  using assms by (simp add: parse_canonical_attack_def parse_canonical_mbc_def part_at_nth)

theorem parse_canonical_positional_witness:
  "ex_parse_parts_id ''Discovery::File and Directory Discovery [T1083]''
     = ([''Discovery'', ''File and Directory Discovery''], ''T1083'')
   \<and> parse_canonical_attack ex_parse_parts_id ''Discovery::File and Directory Discovery [T1083]'' =
           (PDict [(KStr ''parts'', PList [PStr ''Discovery'', PStr ''File and Directory Discovery'']),
                  (KStr ''id'', PStr ''T1083''),
                  (KStr ''tactic'', PStr ''Discovery''),
                  (KStr ''technique'', PStr ''File and Directory Discovery''),
                  (KStr ''subtechnique'', PStr '''')] :: obj pv)
   \<and> parse_canonical_mbc ex_parse_parts_id ''Discovery::File and Directory Discovery [T1083]'' =
           (PDict [(KStr ''parts'', PList [PStr ''Discovery'', PStr ''File and Directory Discovery'']),
                  (KStr ''id'', PStr ''T1083''),
                  (KStr ''objective'', PStr ''Discovery''),
                  (KStr ''behavior'', PStr ''File and Directory Discovery''),
                  (KStr ''method'', PStr '''')] :: obj pv)"
  using parse_canonical_positional [where ?'o = obj and parse_parts_id = ex_parse_parts_id
      and s = "''Discovery::File and Directory Discovery [T1083]''"
      and parts = "[''Discovery'', ''File and Directory Discovery'']" and ident = "''T1083''"]
  by (simp add: ex_parse_T1083 part_at_def)

text \<open>
  Claim C6. When \<open>convert_capabilities_to_result_document\<close> returns, the "rules" mapping of
  the document has no entry for a rule name of the capabilities whose rule carries the
  subscope marker, and its keys are exactly the names of the capabilities whose rule does
  not carry the marker: every entry is that of a rule with matches that is no subscope
  rule.
\<close>

theorem subscope_rules_excluded:
  assumes "convert_capabilities_to_result_document n ppi meta rs h caps = Some (Inr (doc, h'))"
  shows "\<exists>doc_rules. py_getitem doc (KStr ''rules'') = Inr (PDict doc_rules)
     \<and> (\<forall>rname r. rname \<in> fst ` set caps \<and> rules rs rname = Some r \<and> is_subscope_rule h r
           \<longrightarrow> \<not> py_contains (PDict doc_rules) (KStr rname))
     \<and> (\<forall>k. py_contains (PDict doc_rules) k
           = (\<exists>rname r. k = KStr rname \<and> rname \<in> fst ` set caps \<and> rules rs rname = Some r
                 \<and> \<not> is_subscope_rule h r))"
proof -
  from assms obtain doc_rules where
    run: "convert_rules n ppi rs caps caps [] h = Some (Inr (doc_rules, h'))"
    and doc: "doc = PDict [(KStr ''meta'', meta), (KStr ''rules'', PDict doc_rules)]"
    by (rule convert_capabilities_returned)
  note inv = convert_rules_invariant [OF run]
  have absent: "map_of doc_rules k = None"
    if "\<And>rname r. converts rs h caps rname r \<Longrightarrow> k \<noteq> KStr rname" for k
    using inv [THEN conjunct2, THEN conjunct2, THEN conjunct1, rule_format, of k] that by simp
  have present: "map_of doc_rules (KStr rname) \<noteq> None" if "converts rs h caps rname r" for rname r
    using inv [THEN conjunct2, THEN conjunct2, THEN conjunct2, rule_format, OF that] by auto
  have keys: "py_contains (PDict doc_rules) k
           = (\<exists>rname r. k = KStr rname \<and> rname \<in> fst ` set caps \<and> rules rs rname = Some r
                 \<and> \<not> is_subscope_rule h r)" for k
  proof
    assume "py_contains (PDict doc_rules) k"
    then have "map_of doc_rules k \<noteq> None" by simp
    with absent [of k] obtain rname r where "converts rs h caps rname r" "k = KStr rname" by blast
    then show "\<exists>rname r. k = KStr rname \<and> rname \<in> fst ` set caps \<and> rules rs rname = Some r
                 \<and> \<not> is_subscope_rule h r"
      by (auto simp: converts_def)
  next
    assume "\<exists>rname r. k = KStr rname \<and> rname \<in> fst ` set caps \<and> rules rs rname = Some r
                 \<and> \<not> is_subscope_rule h r"
    then obtain rname r where "k = KStr rname" "converts rs h caps rname r"
      by (auto simp: converts_def)
    with present show "py_contains (PDict doc_rules) k" by simp
  qed
  have sub: "\<not> py_contains (PDict doc_rules) (KStr rname)"
    if "rname \<in> fst ` set caps \<and> rules rs rname = Some r \<and> is_subscope_rule h r" for rname r
  proof
    assume "py_contains (PDict doc_rules) (KStr rname)"
    then obtain r' where "rules rs rname = Some r'" "\<not> is_subscope_rule h r'"
      unfolding keys by blast
    with that show False by simp
  qed
  show ?thesis
  proof (intro exI [of _ doc_rules] conjI allI impI)
    show "py_getitem doc (KStr ''rules'') = Inr (PDict doc_rules)" by (simp add: doc)
  next
    fix rname r
    assume "rname \<in> fst ` set caps \<and> rules rs rname = Some r \<and> is_subscope_rule h r"
    then show "\<not> py_contains (PDict doc_rules) (KStr rname)" by (rule sub)
  next
    fix k
    show "py_contains (PDict doc_rules) k
           = (\<exists>rname r. k = KStr rname \<and> rname \<in> fst ` set caps \<and> rules rs rname = Some r
                 \<and> \<not> is_subscope_rule h r)" by (rule keys)
  qed
qed

theorem subscope_rules_excluded_witness:
  "is_subscope_rule ex_heap (ex_rule ''B'' 1) \<and> ''B'' \<in> fst ` set ex_caps
   \<and> (\<exists>doc_rules. py_getitem ex_document (KStr ''rules'') = Inr (PDict doc_rules)
         \<and> \<not> py_contains (PDict doc_rules) (KStr ''B'')
         \<and> py_contains (PDict doc_rules) (KStr ''A''))"
proof -
  have b: "''B'' \<in> fst ` set ex_caps \<and> rules ex_rules ''B'' = Some (ex_rule ''B'' 1)
             \<and> is_subscope_rule ex_heap (ex_rule ''B'' 1)"
    by (simp add: ex_caps_def ex_rules_def ex_heap_def ex_rule_def is_subscope_rule_def py_get_def)
  have a: "''A'' \<in> fst ` set ex_caps \<and> rules ex_rules ''A'' = Some (ex_rule ''A'' 0)
             \<and> \<not> is_subscope_rule ex_heap (ex_rule ''A'' 0)"
    by (simp add: ex_caps_def ex_rules_def ex_heap_def ex_rule_def is_subscope_rule_def py_get_def)
  from subscope_rules_excluded [OF ex_run] obtain doc_rules where
    1: "py_getitem ex_document (KStr ''rules'') = Inr (PDict doc_rules)"
    and 2: "\<forall>rname r. rname \<in> fst ` set ex_caps \<and> rules ex_rules rname = Some r \<and> is_subscope_rule ex_heap r
           \<longrightarrow> \<not> py_contains (PDict doc_rules) (KStr rname)"
    and 3: "\<forall>k. py_contains (PDict doc_rules) k
           = (\<exists>rname r. k = KStr rname \<and> rname \<in> fst ` set ex_caps \<and> rules ex_rules rname = Some r
                 \<and> \<not> is_subscope_rule ex_heap r)"
    by blast
  from 2 b have "\<not> py_contains (PDict doc_rules) (KStr ''B'')" by blast
  moreover from 3 a have "py_contains (PDict doc_rules) (KStr ''A'')" by blast
  ultimately show ?thesis using 1 b by blast
qed

text \<open>
  Claim C9. On a meta dict whose "att&ck" and "mbc" values (the empty list for an absent
  key) list strings, \<open>convert_meta_to_result_document\<close> returns the reference it was given
  and leaves the store with this dict rewritten: both keys set to the lists of the parsed
  records. \<open>convert_capabilities_to_result_document\<close> returns a document and a store when
  every rule name of the capabilities is in the rule index, the names are distinct, each
  rule that is no subscope rule has a meta dict of its own whose "att&ck" and "mbc" values
  (where present) list strings, and each of its match trees converts. Whenever it returns,
  for every rule of the capabilities that is no subscope rule: the "meta" value of its
  entry in the document is the reference to the rule's own meta dict (the same mapping,
  not a copy); in the store that the run leaves, this dict is the original with the keys
  "att&ck" and "mbc" set to the lists of the records parsed from the original lists (the
  empty list for a key that was absent); and every other key of every meta dict is as it
  was.
\<close>

theorem rule_meta_rewritten_in_place:
  "(py_iter (py_get (h m) (KStr ''att&ck'') (PList [])) = Inr (map PStr as)
      \<and> py_iter (py_get (h m) (KStr ''mbc'') (PList [])) = Inr (map PStr bs)
     \<longrightarrow> convert_meta_to_result_document ppi h m
           = Inr (m, h(m := AList.update (KStr ''mbc'') (PList (map (parse_canonical_mbc ppi) bs))
                             (AList.update (KStr ''att&ck'') (PList (map (parse_canonical_attack ppi) as)) (h m)))))
   \<and> ((\<forall>rname \<in> fst ` set caps. rules rs rname \<noteq> None)
      \<and> distinct (map fst caps)
      \<and> own_meta rs h caps
      \<and> (\<forall>rname r. converts rs h caps rname r \<longrightarrow>
                 taxonomy_strings (h (rule_meta r)) (KStr ''att&ck'')
               \<and> taxonomy_strings (h (rule_meta r)) (KStr ''mbc''))
      \<and> (\<forall>rname r ms a t. converts rs h caps rname r \<and> (rname, ms) \<in> set caps \<and> (a, t) \<in> set ms
                 \<longrightarrow> (\<exists>d. convert_match_to_result_document n rs h caps t = Some (Inr d)))
     \<longrightarrow> (\<exists>doc h'. convert_capabilities_to_result_document n ppi meta rs h caps = Some (Inr (doc, h'))))
   \<and> (convert_capabilities_to_result_document n ppi meta rs h caps = Some (Inr (doc, h'))
        \<and> rname \<in> fst ` set caps \<and> rules rs rname = Some r \<and> \<not> is_subscope_rule h r
     \<longrightarrow> py_path doc [KStr ''rules'', KStr rname, KStr ''meta''] = Inr (PObj (MetaRef (rule_meta r)))
       \<and> (\<exists>atts mbcs.
           h' (rule_meta r) = AList.update (KStr ''mbc'') (PList mbcs)
                               (AList.update (KStr ''att&ck'') (PList atts) (h (rule_meta r)))
         \<and> parsed_records (parse_canonical_attack ppi)
              (py_get (h (rule_meta r)) (KStr ''att&ck'') (PList [])) atts
         \<and> parsed_records (parse_canonical_mbc ppi)
              (py_get (h (rule_meta r)) (KStr ''mbc'') (PList [])) mbcs
         \<and> (map_of (h (rule_meta r)) (KStr ''att&ck'') = None \<longrightarrow> atts = [])
         \<and> (map_of (h (rule_meta r)) (KStr ''mbc'') = None \<longrightarrow> mbcs = []))
       \<and> (\<forall>ref k. k \<noteq> KStr ''att&ck'' \<longrightarrow> k \<noteq> KStr ''mbc'' \<longrightarrow> map_of (h' ref) k = map_of (h ref) k))"
proof (intro conjI impI)
  assume "py_iter (py_get (h m) (KStr ''att&ck'') (PList [])) = Inr (map PStr as)
      \<and> py_iter (py_get (h m) (KStr ''mbc'') (PList [])) = Inr (map PStr bs)"
  then show "convert_meta_to_result_document ppi h m
           = Inr (m, h(m := AList.update (KStr ''mbc'') (PList (map (parse_canonical_mbc ppi) bs))
                             (AList.update (KStr ''att&ck'') (PList (map (parse_canonical_attack ppi) as)) (h m))))"
    by (intro convert_meta_strings) simp_all
next
  assume a: "(\<forall>rname \<in> fst ` set caps. rules rs rname \<noteq> None)
      \<and> distinct (map fst caps)
      \<and> own_meta rs h caps
      \<and> (\<forall>rname r. converts rs h caps rname r \<longrightarrow>
                 taxonomy_strings (h (rule_meta r)) (KStr ''att&ck'')
               \<and> taxonomy_strings (h (rule_meta r)) (KStr ''mbc''))
      \<and> (\<forall>rname r ms a t. converts rs h caps rname r \<and> (rname, ms) \<in> set caps \<and> (a, t) \<in> set ms
                 \<longrightarrow> (\<exists>d. convert_match_to_result_document n rs h caps t = Some (Inr d)))"
  show "\<exists>doc h'. convert_capabilities_to_result_document n ppi meta rs h caps = Some (Inr (doc, h'))"
    by (rule convert_capabilities_returns)
       (rule a [THEN conjunct1] a [THEN conjunct2, THEN conjunct1]
             a [THEN conjunct2, THEN conjunct2, THEN conjunct1]
             a [THEN conjunct2, THEN conjunct2, THEN conjunct2, THEN conjunct1]
             a [THEN conjunct2, THEN conjunct2, THEN conjunct2, THEN conjunct2])+
next
  assume b: "convert_capabilities_to_result_document n ppi meta rs h caps = Some (Inr (doc, h'))
        \<and> rname \<in> fst ` set caps \<and> rules rs rname = Some r \<and> \<not> is_subscope_rule h r"
  note m = convert_capabilities_meta [OF b [THEN conjunct1] b [THEN conjunct2, THEN conjunct1]
      b [THEN conjunct2, THEN conjunct2, THEN conjunct1] b [THEN conjunct2, THEN conjunct2, THEN conjunct2]]
  from m show "py_path doc [KStr ''rules'', KStr rname, KStr ''meta''] = Inr (PObj (MetaRef (rule_meta r)))"
    by (rule conjunct1)
  from m show "\<exists>atts mbcs.
           h' (rule_meta r) = AList.update (KStr ''mbc'') (PList mbcs)
                               (AList.update (KStr ''att&ck'') (PList atts) (h (rule_meta r)))
         \<and> parsed_records (parse_canonical_attack ppi)
              (py_get (h (rule_meta r)) (KStr ''att&ck'') (PList [])) atts
         \<and> parsed_records (parse_canonical_mbc ppi)
              (py_get (h (rule_meta r)) (KStr ''mbc'') (PList [])) mbcs
         \<and> (map_of (h (rule_meta r)) (KStr ''att&ck'') = None \<longrightarrow> atts = [])
         \<and> (map_of (h (rule_meta r)) (KStr ''mbc'') = None \<longrightarrow> mbcs = [])"
    by (rule conjunct2 [THEN conjunct1])
  from m show "\<forall>ref k. k \<noteq> KStr ''att&ck'' \<longrightarrow> k \<noteq> KStr ''mbc'' \<longrightarrow> map_of (h' ref) k = map_of (h ref) k"
    by (rule conjunct2 [THEN conjunct2])
qed

theorem rule_meta_rewritten_in_place_witness:
  "convert_meta_to_result_document ex_parse_parts_id ex_heap 0 = Inr (0, ex_heap(0 := ex_heap_after 0))
   \<and> convert_capabilities_to_result_document (Suc (Suc (Suc 0))) ex_parse_parts_id (PDict [])
       ex_rules ex_heap ex_caps = Some (Inr (ex_document, ex_heap_after))
   \<and> py_path ex_document [KStr ''rules'', KStr ''A'', KStr ''meta''] = Inr (PObj (MetaRef 0))
   \<and> map_of (ex_heap 0) (KStr ''mbc'') = None
   \<and> map_of (ex_heap_after 0) (KStr ''mbc'') = Some (PList [])
   \<and> map_of (ex_heap_after 0) (KStr ''att&ck'')
        = Some (PList [parse_canonical_attack ex_parse_parts_id ''Discovery::File and Directory Discovery [T1083]''])
   \<and> map_of (ex_heap_after 0) (KStr ''scope'') = map_of (ex_heap 0) (KStr ''scope'')"
proof -
  note t = rule_meta_rewritten_in_place [where n = "Suc (Suc (Suc 0))" and ppi = ex_parse_parts_id
      and meta = "PDict []" and rs = ex_rules and h = ex_heap and caps = ex_caps
      and rname = "''A''" and r = "ex_rule ''A'' 0"]
  have names: "\<forall>rname \<in> fst ` set ex_caps. rules ex_rules rname \<noteq> None"
    by (simp add: ex_caps_def ex_rules_def)
  have dist: "distinct (map fst ex_caps)" by (simp add: ex_caps_def)
  have own: "own_meta ex_rules ex_heap ex_caps"
    by (auto simp: own_meta_def ex_converts ex_rule_def)
  have strs: "\<forall>rname r. converts ex_rules ex_heap ex_caps rname r \<longrightarrow>
                 taxonomy_strings (ex_heap (rule_meta r)) (KStr ''att&ck'')
               \<and> taxonomy_strings (ex_heap (rule_meta r)) (KStr ''mbc'')"
    using ex_taxonomy_strings by (auto simp: ex_converts ex_rule_def)
  have trees: "\<forall>rname r ms a t. converts ex_rules ex_heap ex_caps rname r \<and> (rname, ms) \<in> set ex_caps \<and> (a, t) \<in> set ms
                 \<longrightarrow> (\<exists>d. convert_match_to_result_document (Suc (Suc (Suc 0))) ex_rules ex_heap ex_caps t = Some (Inr d))"
  proof (intro allI impI, elim conjE)
    fix rname r ms a t
    assume "converts ex_rules ex_heap ex_caps rname r"
    then have "rname = ''A'' \<or> rname = ''Y''" by (auto simp: ex_converts)
    moreover assume "(rname, ms) \<in> set ex_caps" "(a, t) \<in> set ms"
    ultimately have "t = ex_tree_A \<or> t = ex_leaf 20480" by (auto simp: ex_caps_def)
    with ex_convert_tree_A convert_ex_leaf [of "Suc (Suc 0)" ex_rules ex_heap ex_caps 20480]
    show "\<exists>d. convert_match_to_result_document (Suc (Suc (Suc 0))) ex_rules ex_heap ex_caps t = Some (Inr d)"
      by auto
  qed
  from t [THEN conjunct2, THEN conjunct1] names dist own strs trees
  obtain doc h' where run: "convert_capabilities_to_result_document (Suc (Suc (Suc 0))) ex_parse_parts_id
       (PDict []) ex_rules ex_heap ex_caps = Some (Inr (doc, h'))" by blast
  with ex_run have doc: "doc = ex_document" and h': "h' = ex_heap_after" by simp_all
  have a: "''A'' \<in> fst ` set ex_caps \<and> rules ex_rules ''A'' = Some (ex_rule ''A'' 0)
             \<and> \<not> is_subscope_rule ex_heap (ex_rule ''A'' 0)"
    by (simp add: ex_caps_def ex_rules_def ex_heap_def ex_rule_def is_subscope_rule_def py_get_def)
  from t [where doc = ex_document and h' = ex_heap_after, THEN conjunct2, THEN conjunct2] run a
  have p: "py_path ex_document [KStr ''rules'', KStr ''A'', KStr ''meta''] = Inr (PObj (MetaRef (rule_meta (ex_rule ''A'' 0))))"
    and q: "\<exists>atts mbcs.
           ex_heap_after (rule_meta (ex_rule ''A'' 0)) = AList.update (KStr ''mbc'') (PList mbcs)
                               (AList.update (KStr ''att&ck'') (PList atts) (ex_heap (rule_meta (ex_rule ''A'' 0))))
         \<and> parsed_records (parse_canonical_attack ex_parse_parts_id)
              (py_get (ex_heap (rule_meta (ex_rule ''A'' 0))) (KStr ''att&ck'') (PList [])) atts
         \<and> parsed_records (parse_canonical_mbc ex_parse_parts_id)
              (py_get (ex_heap (rule_meta (ex_rule ''A'' 0))) (KStr ''mbc'') (PList [])) mbcs
         \<and> (map_of (ex_heap (rule_meta (ex_rule ''A'' 0))) (KStr ''att&ck'') = None \<longrightarrow> atts = [])
         \<and> (map_of (ex_heap (rule_meta (ex_rule ''A'' 0))) (KStr ''mbc'') = None \<longrightarrow> mbcs = [])"
    and s: "\<forall>ref k. k \<noteq> KStr ''att&ck'' \<longrightarrow> k \<noteq> KStr ''mbc'' \<longrightarrow> map_of (ex_heap_after ref) k = map_of (ex_heap ref) k"
    unfolding doc h' by blast+
  have m0: "map_of (ex_heap 0) (KStr ''mbc'') = None" by (simp add: ex_heap_def)
  from q obtain atts mbcs where
    sh: "ex_heap_after 0 = AList.update (KStr ''mbc'') (PList mbcs)
                               (AList.update (KStr ''att&ck'') (PList atts) (ex_heap 0))"
    and pa: "parsed_records (parse_canonical_attack ex_parse_parts_id)
              (py_get (ex_heap 0) (KStr ''att&ck'') (PList [])) atts"
    and mb: "map_of (ex_heap 0) (KStr ''mbc'') = None \<longrightarrow> mbcs = []"
    by (auto simp: ex_rule_def)
  from mb m0 have mbcs: "mbcs = []" by simp
  from pa have atts: "atts = [parse_canonical_attack ex_parse_parts_id ''Discovery::File and Directory Discovery [T1083]'']"
    by (auto simp: parsed_records_def ex_heap_def py_get_def)
  from sh have g1: "map_of (ex_heap_after 0) (KStr ''mbc'') = Some (PList [])"
    and g2: "map_of (ex_heap_after 0) (KStr ''att&ck'')
        = Some (PList [parse_canonical_attack ex_parse_parts_id ''Discovery::File and Directory Discovery [T1083]''])"
    by (simp_all add: mbcs atts update_conv')
  from s have g3: "map_of (ex_heap_after 0) (KStr ''scope'') = map_of (ex_heap 0) (KStr ''scope'')" by simp
  from p have g0: "py_path ex_document [KStr ''rules'', KStr ''A'', KStr ''meta''] = Inr (PObj (MetaRef 0))"
    by (simp add: ex_rule_def)
  from rule_meta_rewritten_in_place [where h = ex_heap and m = 0 and ppi = ex_parse_parts_id
      and as = "[''Discovery::File and Directory Discovery [T1083]'']" and bs = "[]", THEN conjunct1]
  have cm: "convert_meta_to_result_document ex_parse_parts_id ex_heap 0 = Inr (0, ex_heap(0 := ex_heap_after 0))"
    by (simp add: ex_heap_def ex_heap_after_def py_get_def parse_canonical_attack_def ex_parse_T1083)
  from cm run [unfolded doc h'] g0 m0 g1 g2 g3 show ?thesis by (intro conjI)
qed

section \<open>Properties of the encoder\<close>

lemma emap_list_all2:
  assumes "list_all2 (\<lambda>x y. f x = g y) xs ys"
  shows "emap f xs = emap g ys"
  using assms by (induction rule: list_all2_induct) simp_all

lemma key_int_inj: "is_KInt k \<Longrightarrow> is_KInt k' \<Longrightarrow> key_int k = key_int k' \<Longrightarrow> k = k'"
  by (cases k; cases k') simp_all

lemma key_str_inj: "\<not> is_KInt k \<Longrightarrow> \<not> is_KInt k' \<Longrightarrow> key_str k = key_str k' \<Longrightarrow> k = k'"
  by (cases k; cases k') simp_all

lemma sort_key_mset_eq:
  assumes "mset xs = mset ys" and "inj_on f (set xs)"
  shows "sort_key f xs = sort_key f ys"
proof (rule sort_key_inj_key_eq)
  show "mset xs = mset (sort_key f ys)" using assms(1) by simp
  show "inj_on f (set xs)" by (rule assms(2))
  show "sorted (map f (sort_key f ys))" by simp
qed

lemma py_sorted_mset:
  assumes "mset ks = mset ks'"
  shows "py_sorted ks = py_sorted ks'"
proof -
  from assms have s: "set ks = set ks'" by (rule mset_eq_setD)
  have i: "inj_on key_int (set ks)" if "list_all is_KInt ks"
    using that by (auto simp: inj_on_def list_all_iff intro: key_int_inj)
  have j: "inj_on key_str (set ks)" if "list_all (\<lambda>k. \<not> is_KInt k) ks"
    using that by (auto simp: inj_on_def list_all_iff intro: key_str_inj)
  show ?thesis
    using s sort_key_mset_eq [OF assms i] sort_key_mset_eq [OF assms j]
    by (auto simp: py_sorted_def list_all_iff)
qed

lemma insort_key_list_all2:
  assumes "list_all2 R xs ys" and "R x y" and "f x = g y"
    and "list_all2 (\<lambda>a b. f a = g b) xs ys"
  shows "list_all2 R (insort_key f x xs) (insort_key g y ys)"
  using assms(1,4,2,3)
  by (induction rule: list_all2_induct) auto

lemma sort_key_list_all2:
  assumes "list_all2 (\<lambda>a b. R a b \<and> f a = g b) xs ys"
  shows "list_all2 (\<lambda>a b. R a b \<and> f a = g b) (sort_key f xs) (sort_key g ys)"
  using assms
proof (induction rule: list_all2_induct)
  case Nil
  then show ?case by simp
next
  case (Cons x xs y ys)
  then show ?case
    by (auto intro!: insort_key_list_all2 elim: list_all2_mono)
qed

lemma sorted_items_related:
  assumes d: "distinct (map fst kvs)"
    and r: "list_all2 (\<lambda>kv kv'. R kv kv' \<and> fst kv = fst kv') kvs mid"
    and m: "mset mid = mset kvs'"
  shows "(sorted_items kvs = Inl TypeError \<and> sorted_items kvs' = Inl TypeError)
       \<or> (\<exists>items items'. sorted_items kvs = Inr items \<and> sorted_items kvs' = Inr items'
            \<and> list_all2 (\<lambda>kv kv'. R kv kv' \<and> fst kv = fst kv') items items')"
proof -
  from r have keys: "map fst kvs = map fst mid"
    by (induction rule: list_all2_induct) simp_all
  with d have dm: "distinct (map fst mid)" by simp
  from m have sm: "set mid = set kvs'" by (rule mset_eq_setD)
  have hom: "list_all (\<lambda>kv. P (fst kv)) kvs = list_all (\<lambda>kv. P (fst kv)) kvs'" for P
  proof -
    have "list_all (\<lambda>kv. P (fst kv)) kvs = list_all P (map fst kvs)" by (simp add: list_all_iff)
    also have "\<dots> = list_all P (map fst mid)" by (simp only: keys)
    also have "\<dots> = list_all (\<lambda>kv. P (fst kv)) kvs'" using sm by (simp add: list_all_iff)
    finally show ?thesis .
  qed
  from dm have inj: "inj_on fst (set mid)" by (simp add: distinct_map)
  have sorted_rel: "list_all2 (\<lambda>kv kv'. R kv kv' \<and> fst kv = fst kv') (sort_key (\<lambda>kv. f (fst kv)) kvs)
      (sort_key (\<lambda>kv. f (fst kv)) kvs')"
    if fi: "\<And>a b. a \<in> set mid \<Longrightarrow> b \<in> set mid \<Longrightarrow> f (fst a) = f (fst b) \<Longrightarrow> fst a = fst b" for f :: "key \<Rightarrow> 'k::linorder"
  proof -
    have "inj_on (\<lambda>kv. f (fst kv)) (set mid)"
      using inj fi by (auto simp: inj_on_def)
    from sort_key_mset_eq [OF m this]
    have e: "sort_key (\<lambda>kv. f (fst kv)) kvs' = sort_key (\<lambda>kv. f (fst kv)) mid" by simp
    from r have "list_all2 (\<lambda>a b. (R a b \<and> fst a = fst b) \<and> f (fst a) = f (fst b)) kvs mid"
      by (rule list_all2_mono) simp
    from sort_key_list_all2 [OF this]
    have "list_all2 (\<lambda>a b. (R a b \<and> fst a = fst b) \<and> f (fst a) = f (fst b))
            (sort_key (\<lambda>kv. f (fst kv)) kvs) (sort_key (\<lambda>kv. f (fst kv)) mid)" .
    then show ?thesis unfolding e by (rule list_all2_mono) simp
  qed
  show ?thesis
  proof (cases "list_all (\<lambda>kv. is_KInt (fst kv)) kvs")
    case True
    then have "list_all (\<lambda>kv. is_KInt (fst kv)) mid"
      using hom [of is_KInt] sm by (simp add: list_all_iff)
    then have "list_all2 (\<lambda>kv kv'. R kv kv' \<and> fst kv = fst kv') (sort_key (\<lambda>kv. key_int (fst kv)) kvs)
      (sort_key (\<lambda>kv. key_int (fst kv)) kvs')"
      by (intro sorted_rel) (auto simp: list_all_iff intro: key_int_inj)
    with True hom [of is_KInt] show ?thesis by (simp add: sorted_items_def)
  next
    case False
    note notint = this
    show ?thesis
    proof (cases "list_all (\<lambda>kv. \<not> is_KInt (fst kv)) kvs")
      case True
      then have "list_all (\<lambda>kv. \<not> is_KInt (fst kv)) mid"
        using hom [of "\<lambda>k. \<not> is_KInt k"] sm by (simp add: list_all_iff)
      then have "list_all2 (\<lambda>kv kv'. R kv kv' \<and> fst kv = fst kv') (sort_key (\<lambda>kv. key_str (fst kv)) kvs)
        (sort_key (\<lambda>kv. key_str (fst kv)) kvs')"
        by (intro sorted_rel) (auto simp: list_all_iff intro: key_str_inj)
      with True notint hom [of is_KInt] hom [of "\<lambda>k. \<not> is_KInt k"] show ?thesis
        by (simp add: sorted_items_def)
    next
      case False
      with notint hom [of is_KInt] hom [of "\<lambda>k. \<not> is_KInt k"] show ?thesis
        by (simp add: sorted_items_def)
    qed
  qed
qed

lemma json_encode_reordered:
  assumes "reordered v w"
  shows "json_encode esc dr v = json_encode esc dr w"
  using assms
proof (induction rule: reordered.induct)
  case (same v)
  show ?case by simp
next
  case (in_list xs ys)
  then have "list_all2 (\<lambda>x y. json_encode esc dr x = json_encode esc dr y) xs ys"
    by (rule list_all2_mono) simp
  then have "emap (json_encode esc dr) xs = emap (json_encode esc dr) ys"
    by (rule emap_list_all2)
  then show ?case by simp
next
  case (in_set ks ks')
  then show ?case
    by (simp add: CapaJsonObjectEncoder_default_def py_sorted_mset [of ks ks'])
next
  case (in_dict kvs mid kvs')
  let ?g = "\<lambda>kv. ebind (json_encode esc dr (snd kv))
                                   (\<lambda>s. Inr (esc (key_text (fst kv)) @ '': '' @ s))"
  from in_dict.IH have "list_all2 (\<lambda>kv kv'. ?g kv = ?g kv' \<and> fst kv = fst kv') kvs mid"
    by (rule list_all2_mono) simp
  from sorted_items_related [OF in_dict.hyps(1) this in_dict.hyps(2)]
  show ?case
  proof (elim disjE exE conjE)
    assume "sorted_items kvs = Inl TypeError" "sorted_items kvs' = Inl TypeError"
    then show ?thesis by simp
  next
    fix items items'
    assume i: "sorted_items kvs = Inr items" "sorted_items kvs' = Inr items'"
      and l: "list_all2 (\<lambda>kv kv'. ?g kv = ?g kv' \<and> fst kv = fst kv') items items'"
    from l have "list_all2 (\<lambda>kv kv'. ?g kv = ?g kv') items items'"
      by (rule list_all2_mono) (erule conjunct1)
    then have "emap ?g items = emap ?g items'" by (rule emap_list_all2)
    with i show ?thesis by simp
  qed
qed

lemma deref_reordered:
  assumes "\<forall>r. reordered (PDict (h r)) (PDict (h' r))"
  shows "deref esc h = deref esc h'"
proof
  fix x show "deref esc h x = deref esc h' x"
    using assms json_encode_reordered [of "PDict (h r)" "PDict (h' r)" for r]
    by (cases x) simp_all
qed

lemma ex_reordered:
  "reordered (PDict [(KStr ''b'', PSet [KInt 8, KInt 1]), (KStr ''a'', PObj (MetaRef 1))])
             (PDict [(KStr ''a'', PObj (MetaRef 1)), (KStr ''b'', PSet [KInt 1, KInt 8])])"
  by (rule reordered.in_dict
        [where mid = "[(KStr ''b'', PSet [KInt 1, KInt 8]), (KStr ''a'', PObj (MetaRef 1))]"])
     (auto intro: reordered.intros)

lemma ex_dumps:
  "json_dumps ex_esc ex_heap (PDict [(KStr ''b'', PSet [KInt 8, KInt 1]), (KStr ''a'', PObj (MetaRef 1))])
     = Inr (''{'' @ ex_esc ''a'' @ '': {'' @ ex_esc ''capa/subscope-rule'' @ '': true, ''
              @ ex_esc ''scope'' @ '': '' @ ex_esc ''basic block'' @ ''}, ''
              @ ex_esc ''b'' @ '': [1, 8]}'')"
  by (simp add: json_dumps_def ex_heap_def sorted_items_def py_sorted_def
      CapaJsonObjectEncoder_default_def show_int_def show_nat.simps)

lemma py_sorted_homogeneous:
  "py_sorted ks = (if homogeneous ks then py_sorted ks else Inl TypeError)"
  "homogeneous ks \<Longrightarrow> \<exists>sks. py_sorted ks = Inr sks"
  by (auto simp: py_sorted_def homogeneous_def)

lemma sorted_items_homogeneous:
  "\<not> homogeneous (map fst kvs) \<Longrightarrow> sorted_items kvs = Inl TypeError"
  "homogeneous (map fst kvs) \<Longrightarrow> \<exists>items. sorted_items kvs = Inr items"
  by (auto simp: sorted_items_def homogeneous_def list_all_iff)

lemma py_sorted_unique:
  assumes m: "mset sks = mset ks" and a: "ascending sks"
  shows "py_sorted ks = Inr sks"
proof -
  from m have s: "set sks = set ks" by (rule mset_eq_setD)
  from m have m': "mset ks = mset sks" by simp
  from a show ?thesis unfolding ascending_def
  proof (elim disjE conjE)
    assume i: "list_all is_KInt sks" and o: "sorted (map key_int sks)"
    from i s have ik: "list_all is_KInt ks" by (simp add: list_all_iff)
    then have "inj_on key_int (set ks)"
      by (auto simp: inj_on_def list_all_iff intro: key_int_inj)
    from sort_key_inj_key_eq [OF m' this o] ik show ?thesis by (simp add: py_sorted_def)
  next
    assume i: "list_all (\<lambda>k. \<not> is_KInt k) sks" and o: "sorted (map key_str sks)"
    from i s have ik: "list_all (\<lambda>k. \<not> is_KInt k) ks" by (simp add: list_all_iff)
    then have "inj_on key_str (set ks)"
      by (auto simp: inj_on_def list_all_iff intro: key_str_inj)
    from sort_key_inj_key_eq [OF m' this o] have e: "sort_key key_str ks = sks" .
    show ?thesis
    proof (cases "ks = []")
      case True
      with m show ?thesis by (simp add: py_sorted_def)
    next
      case False
      with ik have "\<not> list_all is_KInt ks" by (cases ks) auto
      with ik e show ?thesis by (simp add: py_sorted_def)
    qed
  qed
qed

lemma sorted_items_unique:
  assumes d: "distinct (map fst kvs)" and m: "mset items = mset kvs" and a: "ascending (map fst items)"
  shows "sorted_items kvs = Inr items"
proof -
  from m have s: "set items = set kvs" by (rule mset_eq_setD)
  from m have m': "mset kvs = mset items" by simp
  from d have inj: "inj_on fst (set kvs)" by (simp add: distinct_map)
  from a show ?thesis unfolding ascending_def
  proof (elim disjE conjE)
    assume i: "list_all is_KInt (map fst items)" and o: "sorted (map key_int (map fst items))"
    from i s have ik: "list_all (\<lambda>kv. is_KInt (fst kv)) kvs" by (simp add: list_all_iff)
    have "inj_on (\<lambda>kv. key_int (fst kv)) (set kvs)"
    proof (rule inj_onI)
      fix a b assume ab: "a \<in> set kvs" "b \<in> set kvs" and e: "key_int (fst a) = key_int (fst b)"
      from ik ab have "is_KInt (fst a)" "is_KInt (fst b)" by (simp_all add: list_all_iff)
      from key_int_inj [OF this e] have "fst a = fst b" .
      from inj_onD [OF inj this ab] show "a = b" .
    qed
    moreover from o have "sorted (map (\<lambda>kv. key_int (fst kv)) items)" by (simp add: o_def)
    ultimately have "sort_key (\<lambda>kv. key_int (fst kv)) kvs = items"
      by (intro sort_key_inj_key_eq [OF m'])
    with ik show ?thesis by (simp add: sorted_items_def)
  next
    assume i: "list_all (\<lambda>k. \<not> is_KInt k) (map fst items)" and o: "sorted (map key_str (map fst items))"
    from i s have ik: "list_all (\<lambda>kv. \<not> is_KInt (fst kv)) kvs" by (simp add: list_all_iff)
    have "inj_on (\<lambda>kv. key_str (fst kv)) (set kvs)"
    proof (rule inj_onI)
      fix a b assume ab: "a \<in> set kvs" "b \<in> set kvs" and e: "key_str (fst a) = key_str (fst b)"
      from ik ab have "\<not> is_KInt (fst a)" "\<not> is_KInt (fst b)" by (simp_all add: list_all_iff)
      from key_str_inj [OF this e] have "fst a = fst b" .
      from inj_onD [OF inj this ab] show "a = b" .
    qed
    moreover from o have "sorted (map (\<lambda>kv. key_str (fst kv)) items)" by (simp add: o_def)
    ultimately have e: "sort_key (\<lambda>kv. key_str (fst kv)) kvs = items"
      by (intro sort_key_inj_key_eq [OF m'])
    show ?thesis
    proof (cases "kvs = []")
      case True
      with m show ?thesis by (simp add: sorted_items_def)
    next
      case False
      with ik have "\<not> list_all (\<lambda>kv. is_KInt (fst kv)) kvs" by (cases kvs) auto
      with ik e show ?thesis by (simp add: sorted_items_def)
    qed
  qed
qed

lemma emap_returns_all2:
  assumes "list_all2 (\<lambda>x y. f x = Inr y) xs ys"
  shows "emap f xs = Inr ys"
  using assms by (induction rule: list_all2_induct) simp_all

lemma json_encode_list_text:
  assumes "list_all2 (\<lambda>x t. json_encode esc dr x = Inr t) xs texts"
  shows "json_encode esc dr (PList xs) = Inr (''['' @ join '', '' texts @ '']'')"
  using emap_returns_all2 [OF assms] by simp

lemma json_encode_dict_text:
  assumes s: "sorted_items kvs = Inr items"
    and l: "list_all2 (\<lambda>kv t. json_encode esc dr (snd kv) = Inr t) items texts"
  shows "json_encode esc dr (PDict kvs)
           = Inr (''{'' @ join '', '' (map2 (\<lambda>kv t. esc (key_text (fst kv)) @ '': '' @ t) items texts) @ ''}'')"
proof -
  let ?g = "\<lambda>kv. ebind (json_encode esc dr (snd kv)) (\<lambda>s. Inr (esc (key_text (fst kv)) @ '': '' @ s))"
  from l have "list_all2 (\<lambda>kv y. ?g kv = Inr y) items
                 (map2 (\<lambda>kv t. esc (key_text (fst kv)) @ '': '' @ t) items texts)"
    by (induction rule: list_all2_induct) simp_all
  from emap_returns_all2 [OF this] s show ?thesis by simp
qed

lemma json_encode_atoms:
  "emap (json_encode esc dr) (map key_value sks) = Inr (map (atom_text esc) sks)"
proof (induction sks)
  case Nil
  show ?case by simp
next
  case (Cons k sks)
  then show ?case by (cases k) simp_all
qed

lemma json_encode_set_text:
  assumes "py_sorted ks = Inr sks"
  shows "json_encode esc dr (PSet ks) = Inr (''['' @ join '', '' (map (atom_text esc) sks) @ '']'')"
  using assms by (simp add: CapaJsonObjectEncoder_default_def json_encode_atoms)

lemma emap_all_or_TypeError:
  assumes "\<And>x. x \<in> set xs \<Longrightarrow> (\<exists>y. f x = Inr y) \<or> f x = Inl TypeError"
  shows "if \<forall>x\<in>set xs. \<exists>y. f x = Inr y then \<exists>ys. emap f xs = Inr ys else emap f xs = Inl TypeError"
  using assms
proof (induction xs)
  case Nil
  show ?case by simp
next
  case (Cons x xs)
  from Cons.prems [of x] consider y where "f x = Inr y" | "f x = Inl TypeError" by auto
  then show ?case
  proof cases
    case 1
    from Cons.IH Cons.prems
    have "if \<forall>x\<in>set xs. \<exists>y. f x = Inr y then \<exists>ys. emap f xs = Inr ys else emap f xs = Inl TypeError"
      by simp
    with 1 show ?thesis by (auto split: if_splits)
  next
    case 2
    then show ?thesis by auto
  qed
qed

lemma supported_atoms: "list_all (supported ok) (map key_value sks)"
proof (induction sks)
  case Nil
  show ?case by simp
next
  case (Cons k sks)
  then show ?case by (cases k) simp_all
qed

lemma json_encode_supported_step:
  "(\<forall>x. ok x = (\<exists>out. dr x = Some (Inr out))) \<and> (\<forall>x e. dr x = Some (Inl e) \<longrightarrow> e = TypeError)
   \<longrightarrow> (if supported ok v then \<exists>text. json_encode esc dr v = Inr text
        else json_encode esc dr v = Inl TypeError)"
proof (induction esc dr v rule: json_encode.induct)
  case (1 esc dr)
  show ?case by simp
next
  case (2 esc dr b)
  show ?case by simp
next
  case (3 esc dr i)
  show ?case by simp
next
  case (4 esc dr s)
  show ?case by simp
next
  case (5 esc dr xs)
  show ?case
  proof (rule impI)
    assume A: "(\<forall>x. ok x = (\<exists>out. dr x = Some (Inr out))) \<and> (\<forall>x e. dr x = Some (Inl e) \<longrightarrow> e = TypeError)"
    have ih: "if supported ok x then \<exists>text. json_encode esc dr x = Inr text
              else json_encode esc dr x = Inl TypeError" if "x \<in> set xs" for x
      using "5.IH" [OF that] A by (rule mp)
    have "(\<exists>y. json_encode esc dr x = Inr y) \<or> json_encode esc dr x = Inl TypeError" if "x \<in> set xs" for x
      using ih [OF that] by (auto split: if_splits)
    from emap_all_or_TypeError [where f = "json_encode esc dr" and xs = xs, OF this]
    have e: "if \<forall>x\<in>set xs. \<exists>y. json_encode esc dr x = Inr y then \<exists>ys. emap (json_encode esc dr) xs = Inr ys
             else emap (json_encode esc dr) xs = Inl TypeError" by simp
    have g: "(\<exists>y. json_encode esc dr x = Inr y) = supported ok x" if "x \<in> set xs" for x
      using ih [OF that] by (auto split: if_splits)
    have s: "list_all (supported ok) xs = (\<forall>x\<in>set xs. \<exists>y. json_encode esc dr x = Inr y)"
      using g by (simp add: list_all_iff)
    from e show "if supported ok (PList xs) then \<exists>text. json_encode esc dr (PList xs) = Inr text
        else json_encode esc dr (PList xs) = Inl TypeError"
      unfolding supported.simps s by (auto split: if_splits)
  qed
next
  case (6 esc dr kvs)
  show ?case
  proof (rule impI)
    assume A: "(\<forall>x. ok x = (\<exists>out. dr x = Some (Inr out))) \<and> (\<forall>x e. dr x = Some (Inl e) \<longrightarrow> e = TypeError)"
    show "if supported ok (PDict kvs) then \<exists>text. json_encode esc dr (PDict kvs) = Inr text
        else json_encode esc dr (PDict kvs) = Inl TypeError"
    proof (cases "homogeneous (map fst kvs)")
      case False
      then show ?thesis by (simp add: sorted_items_homogeneous(1))
    next
      case True
      from sorted_items_homogeneous(2) [OF this] obtain items where items: "sorted_items kvs = Inr items"
        by blast
      then have si: "set items = set kvs" by (rule sorted_items_set)
      let ?g = "\<lambda>kv. ebind (json_encode esc dr (snd kv)) (\<lambda>s. Inr (esc (key_text (fst kv)) @ '': '' @ s))"
      have ih: "if supported ok (snd kv) then \<exists>text. json_encode esc dr (snd kv) = Inr text
                else json_encode esc dr (snd kv) = Inl TypeError" if "kv \<in> set items" for kv
        using "6.IH" [OF items that] A by (rule mp)
      have "(\<exists>y. ?g kv = Inr y) \<or> ?g kv = Inl TypeError" if "kv \<in> set items" for kv
        using ih [OF that] by (auto split: if_splits)
      from emap_all_or_TypeError [where f = ?g and xs = items, OF this]
      have e: "if \<forall>kv\<in>set items. \<exists>y. ?g kv = Inr y then \<exists>ys. emap ?g items = Inr ys
             else emap ?g items = Inl TypeError" by simp
      have g: "(\<exists>y. ?g kv = Inr y) = supported ok (snd kv)" if "kv \<in> set items" for kv
        using ih [OF that] by (auto split: if_splits)
      have s: "list_all (\<lambda>kv. supported ok (snd kv)) kvs = (\<forall>kv\<in>set items. \<exists>y. ?g kv = Inr y)"
        using g by (simp add: list_all_iff si)
      from e show ?thesis using True items unfolding supported.simps s by (auto split: if_splits)
    qed
  qed
next
  case (7 esc dr ks)
  show ?case
  proof (cases "homogeneous ks")
    case False
    then show ?thesis using py_sorted_homogeneous(1) [of ks]
      by (simp add: CapaJsonObjectEncoder_default_def)
  next
    case True
    from py_sorted_homogeneous(2) [OF this] obtain sks where sks: "py_sorted ks = Inr sks" by blast
    from json_encode_set_text [OF this, of esc dr] True show ?thesis
      by (simp del: json_encode.simps)
  qed
next
  case (8 esc dr x)
  show ?case
  proof (rule impI)
    assume A: "(\<forall>x. ok x = (\<exists>out. dr x = Some (Inr out))) \<and> (\<forall>x e. dr x = Some (Inl e) \<longrightarrow> e = TypeError)"
    show "if supported ok (PObj x) then \<exists>text. json_encode esc dr (PObj x) = Inr text
        else json_encode esc dr (PObj x) = Inl TypeError"
    proof (cases "dr x")
      case None
      with A show ?thesis
        by (simp add: CapaJsonObjectEncoder_default_def JSONEncoder_default_def)
    next
      case (Some out)
      with A show ?thesis by (cases out) auto
    qed
  qed
qed

lemma json_encode_supported:
  assumes "\<And>x. ok x = (\<exists>out. dr x = Some (Inr out))"
    and "\<And>x e. dr x = Some (Inl e) \<Longrightarrow> e = TypeError"
  shows "if supported ok v then \<exists>text. json_encode esc dr v = Inr text
         else json_encode esc dr v = Inl TypeError"
  using json_encode_supported_step [of ok dr v esc] assms by blast

lemma json_dumps_supported:
  "if supported_doc h v then \<exists>text. json_dumps esc h v = Inr text
   else json_dumps esc h v = Inl TypeError"
  unfolding supported_doc_def json_dumps_def
proof (rule json_encode_supported)
  have inner: "if supported (\<lambda>c. False) (PDict (h r)) then \<exists>text. json_encode esc (\<lambda>c. None) (PDict (h r)) = Inr text
         else json_encode esc (\<lambda>c. None) (PDict (h r)) = Inl TypeError" for r
    by (rule json_encode_supported) simp_all
  fix x
  show "(case x of MetaRef r \<Rightarrow> supported (\<lambda>c. False) (PDict (h r)) | Foreign c \<Rightarrow> False)
          = (\<exists>out. deref esc h x = Some (Inr out))"
  proof (cases x)
    case (MetaRef r)
    with inner [of r] show ?thesis by (auto split: if_splits)
  next
    case (Foreign c)
    then show ?thesis by simp
  qed
  fix e assume "deref esc h x = Some (Inl e)"
  then show "e = TypeError"
  proof (cases x)
    case (MetaRef r)
    with inner [of r] \<open>deref esc h x = Some (Inl e)\<close> show ?thesis by (auto split: if_splits)
  next
    case (Foreign c)
    with \<open>deref esc h x = Some (Inl e)\<close> show ?thesis by simp
  qed
qed

lemma insort_key_map_value:
  assumes "\<And>x. fst (m x) = fst x"
  shows "insort_key (\<lambda>kv. f (fst kv)) (m x) (map m xs) = map m (insort_key (\<lambda>kv. f (fst kv)) x xs)"
  by (induction xs) (simp_all add: assms)

lemma sort_key_map_value:
  assumes "\<And>x. fst (m x) = fst x"
  shows "sort_key (\<lambda>kv. f (fst kv)) (map m kvs) = map m (sort_key (\<lambda>kv. f (fst kv)) kvs)"
  by (induction kvs) (simp_all add: insort_key_map_value [of m, OF assms])

lemma sorted_items_map_value:
  "sorted_items (map (map_prod id G) kvs)
     = (case sorted_items kvs of Inl e \<Rightarrow> Inl e | Inr items \<Rightarrow> Inr (map (map_prod id G) items))"
proof -
  have i: "sort_key (\<lambda>kv. key_int (fst kv)) (map (map_prod id G) kvs)
          = map (map_prod id G) (sort_key (\<lambda>kv. key_int (fst kv)) kvs)"
    by (rule sort_key_map_value) simp
  have s: "sort_key (\<lambda>kv. key_str (fst kv)) (map (map_prod id G) kvs)
          = map (map_prod id G) (sort_key (\<lambda>kv. key_str (fst kv)) kvs)"
    by (rule sort_key_map_value) simp
  show ?thesis by (simp add: sorted_items_def list_all_iff i s)
qed

lemma emap_map: "emap f (map g xs) = emap (\<lambda>x. f (g x)) xs"
  by (induction xs) simp_all

lemma map_pv_key_value [simp]: "map_pv f (key_value k) = key_value k"
  by (cases k) simp_all

lemma json_encode_embed_step:
  "dr' = (\<lambda>c. None) \<and> (\<forall>c. dr (Foreign c) = None)
   \<longrightarrow> json_encode esc dr (map_pv Foreign v) = json_encode esc dr' v"
proof (induction esc dr' v rule: json_encode.induct)
  case (1 esc dr')
  show ?case by simp
next
  case (2 esc dr' b)
  show ?case by simp
next
  case (3 esc dr' i)
  show ?case by simp
next
  case (4 esc dr' s)
  show ?case by simp
next
  case (5 esc dr' xs)
  show ?case
  proof (rule impI)
    assume A: "dr' = (\<lambda>c. None) \<and> (\<forall>c. dr (Foreign c) = None)"
    have "emap (\<lambda>x. json_encode esc dr (map_pv Foreign x)) xs = emap (json_encode esc dr') xs"
      by (rule emap_cong [OF refl]) (use "5.IH" A in blast)
    then show "json_encode esc dr (map_pv Foreign (PList xs)) = json_encode esc dr' (PList xs)"
      by (simp add: emap_map)
  qed
next
  case (6 esc dr' kvs)
  show ?case
  proof (rule impI)
    assume A: "dr' = (\<lambda>c. None) \<and> (\<forall>c. dr (Foreign c) = None)"
    show "json_encode esc dr (map_pv Foreign (PDict kvs)) = json_encode esc dr' (PDict kvs)"
    proof (cases "sorted_items kvs")
      case (Inl e)
      then show ?thesis by (simp add: sorted_items_map_value)
    next
      case (Inr items)
      have "emap (\<lambda>kv. ebind (json_encode esc dr (map_pv Foreign (snd kv)))
                          (\<lambda>s. Inr (esc (key_text (fst kv)) @ '': '' @ s))) items
          = emap (\<lambda>kv. ebind (json_encode esc dr' (snd kv))
                          (\<lambda>s. Inr (esc (key_text (fst kv)) @ '': '' @ s))) items"
        by (rule emap_cong [OF refl]) (use "6.IH" [OF Inr] A in simp)
      with Inr show ?thesis by (simp add: sorted_items_map_value emap_map)
    qed
  qed
next
  case (7 esc dr' ks)
  show ?case
  proof (rule impI)
    assume A: "dr' = (\<lambda>c. None) \<and> (\<forall>c. dr (Foreign c) = None)"
    show "json_encode esc dr (map_pv Foreign (PSet ks)) = json_encode esc dr' (PSet ks)"
      by (cases "py_sorted ks")
         (simp_all add: CapaJsonObjectEncoder_default_def json_encode_atoms)
  qed
next
  case (8 esc dr' x)
  show ?case
    by (simp add: CapaJsonObjectEncoder_default_def JSONEncoder_default_def)
qed

lemma json_dumps_reference:
  "json_dumps esc h (PObj (MetaRef r)) = json_dumps esc h (PDict (map (map_prod id (map_pv Foreign)) (h r)))"
proof -
  have "json_encode esc (deref esc h) (map_pv Foreign (PDict (h r))) = json_encode esc (\<lambda>c. None) (PDict (h r))"
    using json_encode_embed_step [of "\<lambda>c. None" "deref esc h" esc "PDict (h r)"] by simp
  then show ?thesis by (simp add: json_dumps_def)
qed

lemma ex_run_Y:
  "convert_capabilities_to_result_document (Suc 0) ex_parse_parts_id (PDict []) ex_rules ex_heap
       [(''Y'', [(4198400, ex_leaf 4198400), (20480, ex_leaf 20480)])]
     = Some (Inr (PDict [(KStr ''meta'', PDict []),
                        (KStr ''rules'', PDict
                           [(KStr ''Y'', PDict [(KStr ''meta'', PObj (MetaRef 3)),
                                   (KStr ''source'', PStr ''rule:''),
                                   (KStr ''matches'', PDict [(KInt 4198400, ex_doc_leaf 4198400),
                                                            (KInt 20480, ex_doc_leaf 20480)])])])],
                  ex_heap(3 := [(KStr ''att&ck'', PList []), (KStr ''mbc'', PList [])])))"
  by (simp add: convert_capabilities_to_result_document_def ex_rules_def ex_rule_def ex_heap_def
      convert_meta_to_result_document_def py_get_def parse_each_def Let_def dict_of_def
      convert_ex_leaf)

lemma ex_dumps_leaf:
  "json_dumps ex_esc h (ex_doc_leaf 20480) = Inr (ex_text_leaf ''20480'')"
  "json_dumps ex_esc h (ex_doc_leaf 4198400) = Inr (ex_text_leaf ''4198400'')"
  by (simp_all add: json_dumps_def ex_doc_leaf_def ex_text_leaf_def sorted_items_def py_sorted_def
      CapaJsonObjectEncoder_default_def show_int_def show_nat.simps)

lemma ex_dumps_Y:
  "json_dumps ex_esc (ex_heap(3 := [(KStr ''att&ck'', PList []), (KStr ''mbc'', PList [])]))
     (PDict [(KStr ''meta'', PDict []),
             (KStr ''rules'', PDict
                [(KStr ''Y'', PDict [(KStr ''meta'', PObj (MetaRef 3)),
                        (KStr ''source'', PStr ''rule:''),
                        (KStr ''matches'', PDict [(KInt 4198400, ex_doc_leaf 4198400),
                                                 (KInt 20480, ex_doc_leaf 20480)])])])])
     = Inr (''{'' @ ex_esc ''meta'' @ '': {}, '' @ ex_esc ''rules'' @ '': {'' @ ex_esc ''Y'' @ '': {''
              @ ex_esc ''matches'' @ '': {'' @ ex_esc ''20480'' @ '': '' @ ex_text_leaf ''20480'' @ '', ''
              @ ex_esc ''4198400'' @ '': '' @ ex_text_leaf ''4198400'' @ ''}, ''
              @ ex_esc ''meta'' @ '': {'' @ ex_esc ''att&ck'' @ '': [], '' @ ex_esc ''mbc'' @ '': []}, ''
              @ ex_esc ''source'' @ '': '' @ ex_esc ''rule:'' @ ''}}}'')"
  using ex_dumps_leaf [of "ex_heap(3 := [(KStr ''att&ck'', PList []), (KStr ''mbc'', PList [])])"]
  by (simp add: json_dumps_def sorted_items_def show_int_def show_nat.simps)

section \<open>The claim about the encoder\<close>

text \<open>
  Claim C8. The encoder emits the same text for two documents (and stores of meta dicts)
  that differ only in the order in which their sets and dicts enumerate their contents.
  The text of a dict lists its items by ascending key, each as the quoted text of the key,
  a colon and the text of the value, between braces; the text of a set is that of a list,
  its elements in ascending order between brackets; the text of a list lists the texts of
  its elements in their order; a reference is emitted as the meta dict it refers to. A
  value of the supported kinds has a text, and for any other value (one that holds a
  foreign object, also inside a meta dict, or keys or elements that cannot be sorted) the
  encoding fails with TypeError and there is no output. \<open>render_json\<close> returns a text
  when the assembler returns a document of the supported kinds, and it returns a given
  text exactly when the assembler returns a document that the encoder has this text for.
\<close>

theorem json_dumps_deterministic:
  "(reordered v w \<and> (\<forall>r. reordered (PDict (h r)) (PDict (h' r)))
      \<longrightarrow> json_dumps esc h v = json_dumps esc h' w)
   \<and> (distinct (map fst kvs) \<and> mset items = mset kvs \<and> ascending (map fst items)
        \<and> list_all2 (\<lambda>kv t. json_dumps esc h (snd kv) = Inr t) items texts
      \<longrightarrow> json_dumps esc h (PDict kvs)
            = Inr (''{'' @ join '', '' (map2 (\<lambda>kv t. esc (key_text (fst kv)) @ '': '' @ t) items texts) @ ''}''))
   \<and> (mset sks = mset ks \<and> ascending sks
      \<longrightarrow> json_dumps esc h (PSet ks) = Inr (''['' @ join '', '' (map (atom_text esc) sks) @ '']''))
   \<and> (list_all2 (\<lambda>x t. json_dumps esc h x = Inr t) xs texts'
      \<longrightarrow> json_dumps esc h (PList xs) = Inr (''['' @ join '', '' texts' @ '']''))
   \<and> json_dumps esc h (PObj (MetaRef r)) = json_dumps esc h (PDict (map (map_prod id (map_pv Foreign)) (h r)))
   \<and> (supported_doc h u \<longrightarrow> (\<exists>text. json_dumps esc h u = Inr text))
   \<and> (\<not> supported_doc h u \<longrightarrow> json_dumps esc h u = Inl TypeError)
   \<and> (convert_capabilities_to_result_document n parse_parts_id meta rs h caps = Some (Inr (doc, h1))
        \<and> supported_doc h1 doc
      \<longrightarrow> (\<exists>text. render_json n parse_parts_id esc meta rs h caps = Some (Inr text)))
   \<and> (render_json n parse_parts_id esc meta rs h caps = Some (Inr text))
       = (\<exists>doc h1. convert_capabilities_to_result_document n parse_parts_id meta rs h caps
                        = Some (Inr (doc, h1))
                  \<and> json_dumps esc h1 doc = Inr text)"
proof (intro conjI impI)
  assume "reordered v w \<and> (\<forall>r. reordered (PDict (h r)) (PDict (h' r)))"
  then show "json_dumps esc h v = json_dumps esc h' w"
    by (simp add: json_dumps_def deref_reordered [of h h'] json_encode_reordered)
next
  assume a: "distinct (map fst kvs) \<and> mset items = mset kvs \<and> ascending (map fst items)
        \<and> list_all2 (\<lambda>kv t. json_dumps esc h (snd kv) = Inr t) items texts"
  then have s: "sorted_items kvs = Inr items" by (intro sorted_items_unique) simp_all
  from a have l: "list_all2 (\<lambda>kv t. json_encode esc (deref esc h) (snd kv) = Inr t) items texts"
    by (simp add: json_dumps_def)
  show "json_dumps esc h (PDict kvs)
            = Inr (''{'' @ join '', '' (map2 (\<lambda>kv t. esc (key_text (fst kv)) @ '': '' @ t) items texts) @ ''}'')"
    unfolding json_dumps_def by (rule json_encode_dict_text [OF s l])
next
  assume "mset sks = mset ks \<and> ascending sks"
  then have "py_sorted ks = Inr sks" by (intro py_sorted_unique) simp_all
  then show "json_dumps esc h (PSet ks) = Inr (''['' @ join '', '' (map (atom_text esc) sks) @ '']'')"
    unfolding json_dumps_def by (rule json_encode_set_text)
next
  assume "list_all2 (\<lambda>x t. json_dumps esc h x = Inr t) xs texts'"
  then have "list_all2 (\<lambda>x t. json_encode esc (deref esc h) x = Inr t) xs texts'"
    by (simp add: json_dumps_def)
  then show "json_dumps esc h (PList xs) = Inr (''['' @ join '', '' texts' @ '']'')"
    unfolding json_dumps_def by (rule json_encode_list_text)
next
  show "json_dumps esc h (PObj (MetaRef r)) = json_dumps esc h (PDict (map (map_prod id (map_pv Foreign)) (h r)))"
    by (rule json_dumps_reference)
next
  assume "supported_doc h u"
  with json_dumps_supported [of h u esc] show "\<exists>text. json_dumps esc h u = Inr text" by simp
next
  assume "\<not> supported_doc h u"
  with json_dumps_supported [of h u esc] show "json_dumps esc h u = Inl TypeError" by simp
next
  assume a: "convert_capabilities_to_result_document n parse_parts_id meta rs h caps = Some (Inr (doc, h1))
        \<and> supported_doc h1 doc"
  with json_dumps_supported [of h1 doc esc] obtain out where "json_dumps esc h1 doc = Inr out"
    by auto
  with a show "\<exists>text. render_json n parse_parts_id esc meta rs h caps = Some (Inr text)"
    by (simp add: render_json_def)
next
  show "(render_json n parse_parts_id esc meta rs h caps = Some (Inr text))
       = (\<exists>doc h1. convert_capabilities_to_result_document n parse_parts_id meta rs h caps
                        = Some (Inr (doc, h1))
                  \<and> json_dumps esc h1 doc = Inr text)"
    by (auto simp: render_json_def elim!: cbind_returned)
qed

theorem json_dumps_deterministic_witness:
  "render_json (Suc 0) ex_parse_parts_id ex_esc (PDict []) ex_rules ex_heap
       [(''Y'', [(4198400, ex_leaf 4198400), (20480, ex_leaf 20480)])]
     = Some (Inr (''{'' @ ex_esc ''meta'' @ '': {}, '' @ ex_esc ''rules'' @ '': {'' @ ex_esc ''Y'' @ '': {''
              @ ex_esc ''matches'' @ '': {'' @ ex_esc ''20480'' @ '': '' @ ex_text_leaf ''20480'' @ '', ''
              @ ex_esc ''4198400'' @ '': '' @ ex_text_leaf ''4198400'' @ ''}, ''
              @ ex_esc ''meta'' @ '': {'' @ ex_esc ''att&ck'' @ '': [], '' @ ex_esc ''mbc'' @ '': []}, ''
              @ ex_esc ''source'' @ '': '' @ ex_esc ''rule:'' @ ''}}}''))
   \<and> (\<exists>text. render_json (Suc 0) ex_parse_parts_id ex_esc (PDict []) ex_rules ex_heap
                [(''Y'', [(4198400, ex_leaf 4198400), (20480, ex_leaf 20480)])] = Some (Inr text))
   \<and> json_dumps ex_esc ex_heap (PSet [KInt 8, KInt 1]) = Inr ''[1, 8]''
   \<and> json_dumps ex_esc ex_heap (PList [PSet [KInt 8, KInt 1], PNone]) = Inr ''[[1, 8], null]''
   \<and> json_dumps ex_esc ex_heap (PDict [(KInt 4198400, PNone), (KInt 20480, PSet [KInt 8, KInt 1])])
       = Inr (''{'' @ ex_esc ''20480'' @ '': [1, 8], '' @ ex_esc ''4198400'' @ '': null}'')
   \<and> json_dumps ex_esc ex_heap (PDict [(KStr ''a'', PObj (MetaRef 1)), (KStr ''b'', PSet [KInt 1, KInt 8])])
       = Inr (''{'' @ ex_esc ''a'' @ '': {'' @ ex_esc ''capa/subscope-rule'' @ '': true, ''
              @ ex_esc ''scope'' @ '': '' @ ex_esc ''basic block'' @ ''}, ''
              @ ex_esc ''b'' @ '': [1, 8]}'')
   \<and> (\<exists>text. json_dumps ex_esc ex_heap (PObj (MetaRef 1)) = Inr text)
   \<and> json_dumps ex_esc ex_heap (PList [PInt 1, PObj (Foreign ''bytes'')]) = Inl TypeError
   \<and> json_dumps ex_esc (ex_heap(5 := [(KStr ''x'', PObj ''bytes'')])) (PDict [(KStr ''meta'', PObj (MetaRef 5))])
       = Inl TypeError
   \<and> json_dumps ex_esc ex_heap (PDict [(KInt 1, PNone), (KStr ''a'', PNone)]) = Inl TypeError"
proof -
  note t = json_dumps_deterministic [where esc = ex_esc and h = ex_heap]
  have render: "render_json (Suc 0) ex_parse_parts_id ex_esc (PDict []) ex_rules ex_heap
       [(''Y'', [(4198400, ex_leaf 4198400), (20480, ex_leaf 20480)])]
     = Some (Inr (''{'' @ ex_esc ''meta'' @ '': {}, '' @ ex_esc ''rules'' @ '': {'' @ ex_esc ''Y'' @ '': {''
              @ ex_esc ''matches'' @ '': {'' @ ex_esc ''20480'' @ '': '' @ ex_text_leaf ''20480'' @ '', ''
              @ ex_esc ''4198400'' @ '': '' @ ex_text_leaf ''4198400'' @ ''}, ''
              @ ex_esc ''meta'' @ '': {'' @ ex_esc ''att&ck'' @ '': [], '' @ ex_esc ''mbc'' @ '': []}, ''
              @ ex_esc ''source'' @ '': '' @ ex_esc ''rule:'' @ ''}}}''))"
    unfolding t [THEN conjunct2, THEN conjunct2, THEN conjunct2, THEN conjunct2, THEN conjunct2,
                 THEN conjunct2, THEN conjunct2, THEN conjunct2]
    by (intro exI conjI) (rule ex_run_Y, rule ex_dumps_Y)
  have "supported_doc (ex_heap(3 := [(KStr ''att&ck'', PList []), (KStr ''mbc'', PList [])]))
     (PDict [(KStr ''meta'', PDict []),
             (KStr ''rules'', PDict
                [(KStr ''Y'', PDict [(KStr ''meta'', PObj (MetaRef 3)),
                        (KStr ''source'', PStr ''rule:''),
                        (KStr ''matches'', PDict [(KInt 4198400, ex_doc_leaf 4198400),
                                                 (KInt 20480, ex_doc_leaf 20480)])])])])"
    by (simp add: supported_doc_def homogeneous_def ex_doc_leaf_def)
  with t [THEN conjunct2, THEN conjunct2, THEN conjunct2, THEN conjunct2, THEN conjunct2,
          THEN conjunct2, THEN conjunct2, THEN conjunct1] ex_run_Y
  have emits: "\<exists>text. render_json (Suc 0) ex_parse_parts_id ex_esc (PDict []) ex_rules ex_heap
                [(''Y'', [(4198400, ex_leaf 4198400), (20480, ex_leaf 20480)])] = Some (Inr text)"
    by blast
  have set_text: "json_dumps ex_esc ex_heap (PSet [KInt 8, KInt 1]) = Inr ''[1, 8]''"
    using t [where ks = "[KInt 8, KInt 1]" and sks = "[KInt 1, KInt 8]",
             THEN conjunct2, THEN conjunct2, THEN conjunct1]
    by (simp add: ascending_def show_int_def show_nat.simps)
  have none_text: "json_dumps ex_esc ex_heap PNone = Inr ''null''" by (simp add: json_dumps_def)
  have list_text: "json_dumps ex_esc ex_heap (PList [PSet [KInt 8, KInt 1], PNone]) = Inr ''[[1, 8], null]''"
    using t [where xs = "[PSet [KInt 8, KInt 1], PNone]" and texts' = "[''[1, 8]'', ''null'']",
             THEN conjunct2, THEN conjunct2, THEN conjunct2, THEN conjunct1]
      set_text none_text
    by simp
  have dict_text: "json_dumps ex_esc ex_heap (PDict [(KInt 4198400, PNone), (KInt 20480, PSet [KInt 8, KInt 1])])
       = Inr (''{'' @ ex_esc ''20480'' @ '': [1, 8], '' @ ex_esc ''4198400'' @ '': null}'')"
    using t [where kvs = "[(KInt 4198400, PNone), (KInt 20480, PSet [KInt 8, KInt 1])]"
               and items = "[(KInt 20480, PSet [KInt 8, KInt 1]), (KInt 4198400, PNone)]"
               and texts = "[''[1, 8]'', ''null'']",
             THEN conjunct2, THEN conjunct1]
      set_text none_text
    by (simp add: ascending_def show_int_def show_nat.simps)
  have r: "\<forall>r. reordered (PDict (ex_heap r)) (PDict (ex_heap r))"
    by (simp add: reordered.same)
  from t [where v = "PDict [(KStr ''b'', PSet [KInt 8, KInt 1]), (KStr ''a'', PObj (MetaRef 1))]"
       and w = "PDict [(KStr ''a'', PObj (MetaRef 1)), (KStr ''b'', PSet [KInt 1, KInt 8])]"
       and h' = ex_heap, THEN conjunct1] ex_reordered r ex_dumps
  have same_text: "json_dumps ex_esc ex_heap (PDict [(KStr ''a'', PObj (MetaRef 1)), (KStr ''b'', PSet [KInt 1, KInt 8])])
     = Inr (''{'' @ ex_esc ''a'' @ '': {'' @ ex_esc ''capa/subscope-rule'' @ '': true, ''
              @ ex_esc ''scope'' @ '': '' @ ex_esc ''basic block'' @ ''}, ''
              @ ex_esc ''b'' @ '': [1, 8]}'')"
    by simp
  have "supported_doc ex_heap (PObj (MetaRef 1))"
    by (simp add: supported_doc_def ex_heap_def homogeneous_def)
  with t [where u = "PObj (MetaRef 1)", THEN conjunct2, THEN conjunct2, THEN conjunct2, THEN conjunct2,
          THEN conjunct2, THEN conjunct1]
  have ref_text: "\<exists>text. json_dumps ex_esc ex_heap (PObj (MetaRef 1)) = Inr text" by (rule mp)
  have "\<not> supported_doc ex_heap (PList [PInt 1, PObj (Foreign ''bytes'')])"
    by (simp add: supported_doc_def)
  with t [where u = "PList [PInt 1, PObj (Foreign ''bytes'')]", THEN conjunct2, THEN conjunct2,
          THEN conjunct2, THEN conjunct2, THEN conjunct2, THEN conjunct2, THEN conjunct1]
  have foreign: "json_dumps ex_esc ex_heap (PList [PInt 1, PObj (Foreign ''bytes'')]) = Inl TypeError"
    by (rule mp)
  have "\<not> supported_doc (ex_heap(5 := [(KStr ''x'', PObj ''bytes'')])) (PDict [(KStr ''meta'', PObj (MetaRef 5))])"
    by (simp add: supported_doc_def homogeneous_def)
  with json_dumps_deterministic [where esc = ex_esc and h = "ex_heap(5 := [(KStr ''x'', PObj ''bytes'')])"
          and u = "PDict [(KStr ''meta'', PObj (MetaRef 5))]", THEN conjunct2, THEN conjunct2,
          THEN conjunct2, THEN conjunct2, THEN conjunct2, THEN conjunct2, THEN conjunct1]
  have inner: "json_dumps ex_esc (ex_heap(5 := [(KStr ''x'', PObj ''bytes'')])) (PDict [(KStr ''meta'', PObj (MetaRef 5))])
       = Inl TypeError"
    by (rule mp)
  have "\<not> supported_doc ex_heap (PDict [(KInt 1, PNone), (KStr ''a'', PNone)])"
    by (simp add: supported_doc_def homogeneous_def)
  with t [where u = "PDict [(KInt 1, PNone), (KStr ''a'', PNone)]", THEN conjunct2, THEN conjunct2,
          THEN conjunct2, THEN conjunct2, THEN conjunct2, THEN conjunct2, THEN conjunct1]
  have mixed: "json_dumps ex_esc ex_heap (PDict [(KInt 1, PNone), (KStr ''a'', PNone)]) = Inl TypeError"
    by (rule mp)
  from render emits set_text list_text dict_text same_text ref_text foreign inner mixed
  show ?thesis by (intro conjI)
qed

end
